theory Spec2Isabelle
  imports Complex_Main "HOL-Library.Sublist"
begin

section \<open>Python values shared by both programs\<close>

text \<open>
  Python integers are modelled as \<^typ>\<open>int\<close>. Python floats are read as the real
  numbers they denote and float arithmetic as exact arithmetic on \<^typ>\<open>real\<close>; an
  \<open>int\<close> that meets a float is converted with \<^term>\<open>real_of_int\<close>, as Python
  compares and adds them by value. A one-character \<open>str\<close> is a \<^typ>\<open>string\<close>
  holding its UTF-8 bytes.
\<close>

datatype py_error = IndexError | ValueError

text \<open>\<open>int(r)\<close> on a float: truncation toward zero.\<close>

definition py_int :: "real \<Rightarrow> int" where
  "py_int r = (if r < 0 then \<lceil>r\<rceil> else \<lfloor>r\<rfloor>)"

text \<open>
  The place an index \<open>i\<close> names in a list of \<open>len\<close> elements: \<open>i\<close> itself from
  0 up, \<open>len + i\<close> for a negative \<open>i\<close> down to \<open>-len\<close>, and none otherwise (Python
  raises IndexError).
\<close>

definition py_index :: "nat \<Rightarrow> int \<Rightarrow> nat option" where
  "py_index len i =
     (if 0 \<le> i \<and> i < int len then Some (nat i)
      else if - int len \<le> i \<and> i < 0 then Some (nat (int len + i))
      else None)"

text \<open>\<open>xs[i]\<close> and \<open>xs[i] = v\<close>.\<close>

definition py_get :: "'a list \<Rightarrow> int \<Rightarrow> py_error + 'a" where
  "py_get xs i = (case py_index (length xs) i of
                    None \<Rightarrow> Inl IndexError
                  | Some k \<Rightarrow> Inr (xs ! k))"

definition py_set :: "'a list \<Rightarrow> int \<Rightarrow> 'a \<Rightarrow> py_error + 'a list" where
  "py_set xs i v = (case py_index (length xs) i of
                      None \<Rightarrow> Inl IndexError
                    | Some k \<Rightarrow> Inr (xs[k := v]))"

text \<open>\<open>grid[y][x]\<close> and \<open>grid[y][x] = v\<close> on a list of rows.\<close>

definition grid_get :: "'a list list \<Rightarrow> int \<Rightarrow> int \<Rightarrow> py_error + 'a" where
  "grid_get grid y x = (case py_get grid y of
                          Inl err \<Rightarrow> Inl err
                        | Inr row \<Rightarrow> py_get row x)"

definition grid_set :: "'a list list \<Rightarrow> int \<Rightarrow> int \<Rightarrow> 'a \<Rightarrow> py_error + 'a list list" where
  "grid_set grid y x v =
     (case py_get grid y of
        Inl err \<Rightarrow> Inl err
      | Inr row \<Rightarrow> (case py_set row x v of
                      Inl err \<Rightarrow> Inl err
                    | Inr row' \<Rightarrow> py_set grid y row'))"

text \<open>A \<open>for\<close> loop over a list whose body can raise: the first error ends the loop.\<close>

fun fold_err :: "('a \<Rightarrow> 's \<Rightarrow> py_error + 's) \<Rightarrow> 'a list \<Rightarrow> 's \<Rightarrow> py_error + 's" where
  "fold_err f [] s = Inr s"
| "fold_err f (a # as) s = (case f a s of
                             Inl err \<Rightarrow> Inl err
                           | Inr s' \<Rightarrow> fold_err f as s')"

text \<open>\<open>str(i)\<close> of an integer: its decimal digits, with a minus sign when negative.\<close>

fun py_str_nat :: "nat \<Rightarrow> string" where
  "py_str_nat n =
     (if n < 10 then [char_of (48 + n)]
      else py_str_nat (n div 10) @ [char_of (48 + n mod 10)])"

definition py_str :: "int \<Rightarrow> string" where
  "py_str i = (if i < 0 then CHR ''-'' # py_str_nat (nat (- i)) else py_str_nat (nat i))"

section \<open>The simple variant (backup.py)\<close>

text \<open>
  \<open>Entity\<close> is a dataclass: \<open>==\<close> compares all six fields, which is equality of
  records. Each list of the game holds every object once (an object is appended once, when
  it is created), so a list of objects is modelled as the list of their current values and
  an object is known by its place in the list.
\<close>

definition ARROW_RIGHT :: string where "ARROW_RIGHT = [CHR 0xE2, CHR 0x86, CHR 0x92]"
definition ARROW_LEFT :: string where "ARROW_LEFT = [CHR 0xE2, CHR 0x86, CHR 0x90]"
definition ARROW_DOWN :: string where "ARROW_DOWN = [CHR 0xE2, CHR 0x86, CHR 0x93]"
definition ARROW_UP :: string where "ARROW_UP = [CHR 0xE2, CHR 0x86, CHR 0x91]"

record bk_Entity =
  bk_x :: int
  bk_y :: int
  bk_char :: string
  bk_dx :: int
  bk_dy :: int
  bk_is_enemy :: bool

text \<open>\<open>Entity(x, y, char, dx, dy, is_enemy)\<close>; the last three default to 0, 0, False.\<close>

definition bk_Entity :: "int \<Rightarrow> int \<Rightarrow> string \<Rightarrow> int \<Rightarrow> int \<Rightarrow> bool \<Rightarrow> bk_Entity" where
  "bk_Entity x y c dx dy e =
     \<lparr>bk_x = x, bk_y = y, bk_char = c, bk_dx = dx, bk_dy = dy, bk_is_enemy = e\<rparr>"

record bk_Game =
  bk_width :: int
  bk_height :: int
  bk_player :: bk_Entity
  bk_bullets :: "bk_Entity list"
  bk_enemies :: "bk_Entity list"
  bk_score :: int
  bk_game_over :: bool
  bk_last_spawn_time :: real
  bk_last_update_time :: real

text \<open>\<open>Game.__init__(width, height)\<close>; \<open>now\<close> is what \<open>time.time()\<close> returns.\<close>

definition bk_Game_init :: "int \<Rightarrow> int \<Rightarrow> real \<Rightarrow> bk_Game" where
  "bk_Game_init width height now =
     \<lparr>bk_width = width, bk_height = height,
      bk_player = bk_Entity (width div 2) (height div 2) ''@'' 0 0 False,
      bk_bullets = [], bk_enemies = [], bk_score = 0, bk_game_over = False,
      bk_last_spawn_time = now, bk_last_update_time = now\<rparr>"

subsection \<open>move_enemies\<close>

text \<open>
  The body of the loop for one enemy: the displacement to the player, its length, and
  \<open>int(dx/dist + 0.5)\<close> added to each coordinate when the length is not zero.
\<close>

definition bk_enemy_advance :: "bk_Entity \<Rightarrow> bk_Entity \<Rightarrow> bk_Entity" where
  "bk_enemy_advance player enemy =
     (let dx = bk_x player - bk_x enemy;
          dy = bk_y player - bk_y enemy;
          dist = sqrt (real_of_int (dx * dx + dy * dy))
      in if dist \<noteq> 0
         then enemy\<lparr>bk_x := bk_x enemy + py_int (real_of_int dx / dist + 0.5),
                    bk_y := bk_y enemy + py_int (real_of_int dy / dist + 0.5)\<rparr>
         else enemy)"

text \<open>
  \<open>for enemy in self.enemies\<close>: the enemies before the current one are \<open>done\<close>
  (already moved), the current one and those after it are the second argument.
\<close>

fun bk_move_enemies_loop :: "bk_Entity list \<Rightarrow> bk_Entity list \<Rightarrow> bk_Game \<Rightarrow> bk_Game" where
  "bk_move_enemies_loop done [] g = g\<lparr>bk_enemies := done\<rparr>"
| "bk_move_enemies_loop done (enemy # rest) g =
     (let enemy' = bk_enemy_advance (bk_player g) enemy;
          g' = (if bk_x enemy' = bk_x (bk_player g) \<and> bk_y enemy' = bk_y (bk_player g)
                then g\<lparr>bk_game_over := True\<rparr> else g)
      in bk_move_enemies_loop (done @ [enemy']) rest g')"

definition bk_move_enemies :: "bk_Game \<Rightarrow> bk_Game" where
  "bk_move_enemies g = bk_move_enemies_loop [] (bk_enemies g) g"

subsection \<open>shoot\<close>

definition bk_shoot :: "int \<times> int \<Rightarrow> bk_Game \<Rightarrow> bk_Game" where
  "bk_shoot direction g =
     (let dx = fst direction; dy = snd direction;
          bullet = bk_Entity (bk_x (bk_player g) + dx) (bk_y (bk_player g) + dy)
                     ARROW_RIGHT dx dy False;
          bullet = (if dx = 1 then bullet\<lparr>bk_char := ARROW_RIGHT\<rparr>
                    else if dx = -1 then bullet\<lparr>bk_char := ARROW_LEFT\<rparr>
                    else if dy = 1 then bullet\<lparr>bk_char := ARROW_DOWN\<rparr>
                    else if dy = -1 then bullet\<lparr>bk_char := ARROW_UP\<rparr>
                    else bullet)
      in g\<lparr>bk_bullets := bk_bullets g @ [bullet]\<rparr>)"

subsection \<open>update_bullets\<close>

text \<open>
  \<open>for bullet in self.bullets[:]\<close> walks a copy of the list while \<open>self.bullets\<close>
  itself shrinks. \<open>self.bullets\<close> is \<open>visited @ todo\<close> throughout: \<open>visited\<close> holds the
  bullets already visited and still in the list, \<open>todo\<close> the current bullet and the ones
  not visited yet. \<open>self.bullets.remove(bullet)\<close> deletes the first element equal to the
  moved bullet; the moved bullet itself stands right after \<open>visited\<close>, so the first equal
  element is in \<open>visited\<close> or is the bullet itself, which is \<open>remove1\<close> on
  \<open>visited @ [bullet]\<close>. The inner \<open>for enemy in self.enemies[:]\<close> stops at the first
  enemy on the bullet's cell (\<open>find\<close>), and \<open>self.enemies.remove(enemy)\<close> deletes
  the first element equal to it.
\<close>

definition bk_out_of_bounds :: "bk_Game \<Rightarrow> bk_Entity \<Rightarrow> bool" where
  "bk_out_of_bounds g b \<longleftrightarrow>
     bk_x b < 0 \<or> bk_x b \<ge> bk_width g \<or> bk_y b < 0 \<or> bk_y b \<ge> bk_height g"

definition bk_same_cell :: "bk_Entity \<Rightarrow> bk_Entity \<Rightarrow> bool" where
  "bk_same_cell bullet enemy \<longleftrightarrow> bk_x bullet = bk_x enemy \<and> bk_y bullet = bk_y enemy"

definition bk_bullet_advance :: "bk_Entity \<Rightarrow> bk_Entity" where
  "bk_bullet_advance bullet =
     bullet\<lparr>bk_x := bk_x bullet + bk_dx bullet, bk_y := bk_y bullet + bk_dy bullet\<rparr>"

text \<open>
  The body of the loop for one bullet: the bullets visited and still in the list, and
  the game, after it.
\<close>

definition bk_bullet_step ::
  "bk_Entity list \<Rightarrow> bk_Entity \<Rightarrow> bk_Game \<Rightarrow> bk_Entity list \<times> bk_Game" where
  "bk_bullet_step visited bullet g =
     (let bullet' = bk_bullet_advance bullet in
      if bk_out_of_bounds g bullet'
      then (remove1 bullet' (visited @ [bullet']), g)
      else (case find (bk_same_cell bullet') (bk_enemies g) of
              None \<Rightarrow> (visited @ [bullet'], g)
            | Some enemy \<Rightarrow>
                (remove1 bullet' (visited @ [bullet']),
                 g\<lparr>bk_enemies := remove1 enemy (bk_enemies g),
                   bk_score := bk_score g + 10\<rparr>)))"

fun bk_update_bullets_loop :: "bk_Entity list \<Rightarrow> bk_Entity list \<Rightarrow> bk_Game \<Rightarrow> bk_Game" where
  "bk_update_bullets_loop visited [] g = g\<lparr>bk_bullets := visited\<rparr>"
| "bk_update_bullets_loop visited (bullet # rest) g =
     (case bk_bullet_step visited bullet g of
        (visited', g') \<Rightarrow> bk_update_bullets_loop visited' rest g')"

definition bk_update_bullets :: "bk_Game \<Rightarrow> bk_Game" where
  "bk_update_bullets g = bk_update_bullets_loop [] (bk_bullets g) g"

text \<open>
  A bullet that update_bullets has visited and left in the list: inside the grid, with no
  enemy on its cell.
\<close>

definition bk_settled :: "bk_Game \<Rightarrow> bk_Entity \<Rightarrow> bool" where
  "bk_settled g b \<longleftrightarrow>
     \<not> bk_out_of_bounds g b \<and> find (bk_same_cell b) (bk_enemies g) = None"

subsection \<open>spawn_enemy\<close>

text \<open>
  \<open>current_time\<close> is what \<open>time.time()\<close> returns, \<open>side\<close> what
  \<open>random.choice\<close> picks and \<open>r\<close> what the one \<open>random.randint\<close> call of the
  chosen branch returns.
\<close>

datatype bk_side = Top | Bottom | Left | Right

definition bk_spawn_enemy :: "real \<Rightarrow> bk_side \<Rightarrow> int \<Rightarrow> bk_Game \<Rightarrow> bk_Game" where
  "bk_spawn_enemy current_time side r g =
     (if current_time - bk_last_spawn_time g \<ge> 1
      then
        let pos = (case side of
                     Top \<Rightarrow> (r, 0)
                   | Bottom \<Rightarrow> (r, bk_height g - 1)
                   | Left \<Rightarrow> (0, r)
                   | Right \<Rightarrow> (bk_width g - 1, r))
        in g\<lparr>bk_enemies := bk_enemies g @ [bk_Entity (fst pos) (snd pos) ''E'' 0 0 True],
             bk_last_spawn_time := current_time\<rparr>
      else g)"

subsection \<open>draw\<close>

text \<open>\<open>grid[e.y][e.x] = e.char\<close>.\<close>

definition bk_put :: "bk_Entity \<Rightarrow> string list list \<Rightarrow> py_error + string list list" where
  "bk_put e grid = grid_set grid (bk_y e) (bk_x e) (bk_char e)"

text \<open>The grid \<open>draw\<close> builds: blanks, then the bullets, the enemies and the player.\<close>

definition bk_draw_grid :: "bk_Game \<Rightarrow> py_error + string list list" where
  "bk_draw_grid g =
     (let grid = replicate (nat (bk_height g)) (replicate (nat (bk_width g)) '' '') in
      case fold_err bk_put (bk_bullets g) grid of
        Inl err \<Rightarrow> Inl err
      | Inr grid1 \<Rightarrow>
          (case fold_err bk_put (bk_enemies g) grid1 of
             Inl err \<Rightarrow> Inl err
           | Inr grid2 \<Rightarrow> bk_put (bk_player g) grid2))"

text \<open>The lines \<open>draw\<close> prints (clearing the terminal leaves no trace in the game).\<close>

definition bk_draw :: "bk_Game \<Rightarrow> py_error + string list" where
  "bk_draw g =
     (case bk_draw_grid g of
        Inl err \<Rightarrow> Inl err
      | Inr grid \<Rightarrow>
          Inr ([''Score: '' @ py_str (bk_score g),
                replicate (nat (bk_width g + 2)) CHR ''='']
               @ map (\<lambda>row. ''|'' @ concat row @ ''|'') grid
               @ [replicate (nat (bk_width g + 2)) CHR ''='',
                  CHR 0x0A # ''Controls: WASD - Move, IJKL - Shoot, Q - Quit'']))"

subsection \<open>The frame of main\<close>

text \<open>What a key other than \<open>q\<close> does: one step of the player inside the grid, or a shot.\<close>

definition bk_handle_key :: "char \<Rightarrow> bk_Game \<Rightarrow> bk_Game" where
  "bk_handle_key c g =
     (let p = bk_player g in
      if c = CHR ''w'' \<and> bk_y p > 0 then g\<lparr>bk_player := p\<lparr>bk_y := bk_y p - 1\<rparr>\<rparr>
      else if c = CHR ''s'' \<and> bk_y p < bk_height g - 1 then g\<lparr>bk_player := p\<lparr>bk_y := bk_y p + 1\<rparr>\<rparr>
      else if c = CHR ''a'' \<and> bk_x p > 0 then g\<lparr>bk_player := p\<lparr>bk_x := bk_x p - 1\<rparr>\<rparr>
      else if c = CHR ''d'' \<and> bk_x p < bk_width g - 1 then g\<lparr>bk_player := p\<lparr>bk_x := bk_x p + 1\<rparr>\<rparr>
      else if c = CHR ''i'' then bk_shoot (0, - 1) g
      else if c = CHR ''k'' then bk_shoot (0, 1) g
      else if c = CHR ''j'' then bk_shoot (- 1, 0) g
      else if c = CHR ''l'' then bk_shoot (1, 0) g
      else g)"

text \<open>
  One frame of the loop of \<open>main\<close>: the pending key if any, then spawn_enemy,
  move_enemies, update_bullets and draw. \<open>None\<close> is the \<open>break\<close> on \<open>q\<close>. The
  arguments after the key are the clock of the frame and the clock and random values
  spawn_enemy reads.
\<close>

definition bk_frame ::
  "char option \<Rightarrow> real \<Rightarrow> real \<Rightarrow> bk_side \<Rightarrow> int \<Rightarrow> bk_Game \<Rightarrow> py_error + bk_Game option" where
  "bk_frame key current_time spawn_time side r g =
     (if key = Some CHR ''q'' then Inr None
      else
        let g1 = (case key of None \<Rightarrow> g | Some c \<Rightarrow> bk_handle_key c g);
            g2 = bk_update_bullets (bk_move_enemies (bk_spawn_enemy spawn_time side r g1))
        in case bk_draw g2 of
             Inl err \<Rightarrow> Inl err
           | Inr lines \<Rightarrow> Inr (Some (g2\<lparr>bk_last_update_time := current_time\<rparr>)))"

section \<open>Predicates on games of the simple variant\<close>

text \<open>The player and every enemy stand on a cell of the grid.\<close>

definition bk_actors_inside :: "bk_Game \<Rightarrow> bool" where
  "bk_actors_inside g \<longleftrightarrow>
     \<not> bk_out_of_bounds g (bk_player g) \<and>
     list_all (\<lambda>e. \<not> bk_out_of_bounds g e) (bk_enemies g)"

text \<open>So do the bullets.\<close>

definition bk_all_inside :: "bk_Game \<Rightarrow> bool" where
  "bk_all_inside g \<longleftrightarrow>
     \<not> bk_out_of_bounds g (bk_player g) \<and>
     list_all (\<lambda>e. \<not> bk_out_of_bounds g e) (bk_enemies g) \<and>
     list_all (\<lambda>b. \<not> bk_out_of_bounds g b) (bk_bullets g)"

text \<open>
  What \<open>random.randint(0, self.width - 1)\<close> and \<open>random.randint(0, self.height - 1)\<close>
  promise of the integer \<open>spawn_enemy\<close> draws for the side it has chosen.
\<close>

definition bk_spawn_range :: "bk_Game \<Rightarrow> bk_side \<Rightarrow> int \<Rightarrow> bool" where
  "bk_spawn_range g side r \<longleftrightarrow>
     0 \<le> r \<and> r \<le> (case side of Top \<Rightarrow> bk_width g - 1 | Bottom \<Rightarrow> bk_width g - 1
                     | Left \<Rightarrow> bk_height g - 1 | Right \<Rightarrow> bk_height g - 1)"

section \<open>The richer variant (main.py)\<close>

definition MAP_WIDTH :: int where "MAP_WIDTH = 40"
definition MAP_HEIGHT :: int where "MAP_HEIGHT = 20"
definition NUM_ENEMIES :: nat where "NUM_ENEMIES = 10"
definition WALL_DENSITY :: int where "WALL_DENSITY = 30"

definition PLAYER_CHAR :: string where "PLAYER_CHAR = ''@''"
definition ENEMY_CHAR :: string where "ENEMY_CHAR = ''E''"
definition WALL_CHAR :: string where "WALL_CHAR = ''#''"
definition FLOOR_CHAR :: string where "FLOOR_CHAR = ''.''"
definition ARROW_CHAR :: string where "ARROW_CHAR = ''*''"
definition ENEMY_ARROW_CHAR :: string where "ENEMY_ARROW_CHAR = ''+''"

definition COLOR_PLAYER :: nat where "COLOR_PLAYER = 1"
definition COLOR_ENEMY :: nat where "COLOR_ENEMY = 2"
definition COLOR_WALL :: nat where "COLOR_WALL = 3"
definition COLOR_FLOOR :: nat where "COLOR_FLOOR = 4"
definition COLOR_PROJECTILE :: nat where "COLOR_PROJECTILE = 5"
definition COLOR_ENEMY_PROJECTILE :: nat where "COLOR_ENEMY_PROJECTILE = 6"
definition COLOR_STATUS :: nat where "COLOR_STATUS = 7"
definition COLOR_WIN_MESSAGE :: nat where "COLOR_WIN_MESSAGE = 8"

text \<open>
  The three entity classes define no \<open>__eq__\<close>: \<open>list.remove(obj)\<close> deletes that very
  object. As before a list of objects is the list of their current values, each object
  once, known by its place. The player's coordinates stay integers (it is spawned with
  \<open>randint\<close> and moved by whole steps); enemies and projectiles get float coordinates.
\<close>

record Player =
  p_x :: int
  p_y :: int
  p_char :: string
  p_health :: int
  p_speed :: int
  p_ammo :: int

record Enemy =
  e_x :: real
  e_y :: real
  e_char :: string
  e_health :: int
  e_speed :: real
  e_last_shot_time :: real
  e_shoot_delay :: real

record Projectile =
  pr_x :: real
  pr_y :: real
  pr_char :: string
  pr_dx :: real
  pr_dy :: real
  pr_speed :: real
  pr_is_enemy :: bool

definition Player :: "int \<Rightarrow> int \<Rightarrow> Player" where
  "Player x y =
     \<lparr>p_x = x, p_y = y, p_char = PLAYER_CHAR, p_health = 100, p_speed = 1, p_ammo = 10\<rparr>"

text \<open>
  \<open>Enemy(x, y)\<close>: \<open>now\<close> is what \<open>time.time()\<close> returns and \<open>delay\<close> what
  \<open>random.uniform(1, 3)\<close> returns.
\<close>

definition Enemy :: "int \<Rightarrow> int \<Rightarrow> real \<Rightarrow> real \<Rightarrow> Enemy" where
  "Enemy x y now delay =
     \<lparr>e_x = real_of_int x, e_y = real_of_int y, e_char = ENEMY_CHAR, e_health = 50,
      e_speed = 0.5, e_last_shot_time = now, e_shoot_delay = delay\<rparr>"

definition Projectile :: "real \<Rightarrow> real \<Rightarrow> real \<Rightarrow> real \<Rightarrow> bool \<Rightarrow> Projectile" where
  "Projectile x y dx dy is_enemy =
     \<lparr>pr_x = x, pr_y = y,
      pr_char = (if is_enemy then ENEMY_ARROW_CHAR else ARROW_CHAR),
      pr_dx = dx, pr_dy = dy, pr_speed = 2, pr_is_enemy = is_enemy\<rparr>"

record Game =
  width :: int
  height :: int
  game_map :: "string list list"
  player :: Player
  enemies :: "Enemy list"
  projectiles :: "Projectile list"
  last_update :: real
  game_over :: bool

text \<open>\<open>self.map[y][x]\<close>.\<close>

definition tile :: "Game \<Rightarrow> int \<Rightarrow> int \<Rightarrow> py_error + string" where
  "tile g y x = (case py_get (game_map g) y of
                   Inl err \<Rightarrow> Inl err
                 | Inr row \<Rightarrow> py_get row x)"

subsection \<open>move_entity and shoot\<close>

text \<open>\<open>move_entity\<close> is only ever called on the player.\<close>

definition move_entity :: "int \<Rightarrow> int \<Rightarrow> Game \<Rightarrow> py_error + Game" where
  "move_entity dx dy g =
     (let new_x = p_x (player g) + dx; new_y = p_y (player g) + dy in
      if 0 \<le> new_x \<and> new_x < width g \<and> 0 \<le> new_y \<and> new_y < height g
      then (case tile g new_y new_x of
              Inl err \<Rightarrow> Inl err
            | Inr c \<Rightarrow>
                if c = FLOOR_CHAR
                then Inr (g\<lparr>player := (player g)\<lparr>p_x := new_x, p_y := new_y\<rparr>\<rparr>)
                else Inr g)
      else Inr g)"

definition shoot :: "real \<Rightarrow> real \<Rightarrow> real \<Rightarrow> real \<Rightarrow> bool \<Rightarrow> Game \<Rightarrow> Game" where
  "shoot x y dx dy is_enemy g =
     (if \<not> is_enemy \<and> p_ammo (player g) \<le> 0 then g
      else
        let g1 = (if \<not> is_enemy
                  then g\<lparr>player := (player g)\<lparr>p_ammo := p_ammo (player g) - 1\<rparr>\<rparr>
                  else g);
            projectile = Projectile x y dx dy is_enemy
        in g1\<lparr>projectiles := projectiles g1 @ [projectile]\<rparr>)"

subsection \<open>handle_input\<close>

text \<open>What \<open>stdscr.getch()\<close> returns: an arrow key, a character, or nothing pending.\<close>

datatype key = KEY_UP | KEY_DOWN | KEY_LEFT | KEY_RIGHT | Ch char | No_key

definition handle_input :: "key \<Rightarrow> Game \<Rightarrow> py_error + Game" where
  "handle_input k g =
     (let x = real_of_int (p_x (player g)); y = real_of_int (p_y (player g)) in
      if k = KEY_UP then move_entity 0 (- 1) g
      else if k = KEY_DOWN then move_entity 0 1 g
      else if k = KEY_LEFT then move_entity (- 1) 0 g
      else if k = KEY_RIGHT then move_entity 1 0 g
      else if k = Ch CHR ''w'' then Inr (shoot x y 0 (- 1) False g)
      else if k = Ch CHR ''s'' then Inr (shoot x y 0 1 False g)
      else if k = Ch CHR ''a'' then Inr (shoot x y (- 1) 0 False g)
      else if k = Ch CHR ''d'' then Inr (shoot x y 1 0 False g)
      else if k = Ch CHR ''q'' then Inr (shoot x y (- 1) (- 1) False g)
      else if k = Ch CHR ''e'' then Inr (shoot x y 1 (- 1) False g)
      else if k = Ch CHR ''z'' then Inr (shoot x y (- 1) 1 False g)
      else if k = Ch CHR ''c'' then Inr (shoot x y 1 1 False g)
      else if k = Ch CHR ''x'' then Inr (g\<lparr>game_over := True\<rparr>)
      else Inr g)"

subsection \<open>update_projectiles\<close>

definition projectile_advance :: "real \<Rightarrow> Projectile \<Rightarrow> Projectile" where
  "projectile_advance delta_time projectile =
     projectile\<lparr>pr_x := pr_x projectile + pr_dx projectile * pr_speed projectile * delta_time,
                pr_y := pr_y projectile + pr_dy projectile * pr_speed projectile * delta_time\<rparr>"

definition out_of_bounds :: "Game \<Rightarrow> Projectile \<Rightarrow> bool" where
  "out_of_bounds g projectile \<longleftrightarrow>
     pr_x projectile < 0 \<or> pr_x projectile \<ge> real_of_int (width g) \<or>
     pr_y projectile < 0 \<or> pr_y projectile \<ge> real_of_int (height g)"

text \<open>\<open>math.floor\<close> of the player's integer coordinate is the coordinate itself.\<close>

definition hits_player :: "Player \<Rightarrow> Projectile \<Rightarrow> bool" where
  "hits_player pl projectile \<longleftrightarrow>
     p_x pl = \<lfloor>pr_x projectile\<rfloor> \<and> p_y pl = \<lfloor>pr_y projectile\<rfloor>"

definition hits_enemy :: "Projectile \<Rightarrow> Enemy \<Rightarrow> bool" where
  "hits_enemy projectile enemy \<longleftrightarrow>
     \<lfloor>e_x enemy\<rfloor> = \<lfloor>pr_x projectile\<rfloor> \<and> \<lfloor>e_y enemy\<rfloor> = \<lfloor>pr_y projectile\<rfloor>"

text \<open>
  The body of the loop for one projectile. The first component of the result is the
  projectile as it stays in \<open>self.projectiles\<close>, or \<open>None\<close> when the body removed it.
  The inner \<open>for enemy in self.enemies[:]\<close> stops at the first enemy it matches
  (\<open>find\<close>) and removes that object, the first element of the list with its value.
\<close>

definition projectile_step ::
  "real \<Rightarrow> Projectile \<Rightarrow> Game \<Rightarrow> py_error + (Projectile option \<times> Game)" where
  "projectile_step delta_time projectile g =
     (let p = projectile_advance delta_time projectile in
      if out_of_bounds g p then Inr (None, g)
      else
        (case tile g (py_int (pr_y p)) (py_int (pr_x p)) of
           Inl err \<Rightarrow> Inl err
         | Inr c \<Rightarrow>
             if c = WALL_CHAR then Inr (None, g)
             else if pr_is_enemy p then
               (if hits_player (player g) p then
                  let g1 = g\<lparr>player := (player g)\<lparr>p_health := p_health (player g) - 10\<rparr>\<rparr>;
                      g2 = (if p_health (player g1) \<le> 0 then g1\<lparr>game_over := True\<rparr> else g1)
                  in Inr (None, g2)
                else Inr (Some p, g))
             else
               (case find (hits_enemy p) (enemies g) of
                  None \<Rightarrow> Inr (Some p, g)
                | Some enemy \<Rightarrow>
                    Inr (None, g\<lparr>enemies := remove1 enemy (enemies g),
                                  player := (player g)\<lparr>p_ammo := p_ammo (player g) + 2\<rparr>\<rparr>))))"

text \<open>
  \<open>for projectile in self.projectiles[:]\<close>: \<open>kept\<close> holds the projectiles already
  visited and still in \<open>self.projectiles\<close>; the list is written back when the loop ends.
\<close>

fun update_projectiles_loop ::
  "real \<Rightarrow> Projectile list \<Rightarrow> Projectile list \<Rightarrow> Game \<Rightarrow> py_error + Game" where
  "update_projectiles_loop delta_time kept [] g = Inr (g\<lparr>projectiles := kept\<rparr>)"
| "update_projectiles_loop delta_time kept (projectile # rest) g =
     (case projectile_step delta_time projectile g of
        Inl err \<Rightarrow> Inl err
      | Inr (None, g') \<Rightarrow> update_projectiles_loop delta_time kept rest g'
      | Inr (Some p, g') \<Rightarrow> update_projectiles_loop delta_time (kept @ [p]) rest g')"

definition update_projectiles :: "real \<Rightarrow> Game \<Rightarrow> py_error + Game" where
  "update_projectiles delta_time g = update_projectiles_loop delta_time [] (projectiles g) g"

subsection \<open>update_enemies\<close>

text \<open>
  The body of the loop for one enemy. \<open>current_time\<close> is what \<open>time.time()\<close> returned
  at the top of \<open>update_enemies\<close>; \<open>jx\<close>, \<open>jy\<close> are the two values of
  \<open>random.uniform(-0.2, 0.2)\<close> and \<open>delay\<close> the value of \<open>random.uniform(1, 3)\<close>
  drawn for this enemy. The result is the enemy as updated and the game with the
  projectile the enemy may have fired.
\<close>

definition enemy_step ::
  "real \<Rightarrow> real \<Rightarrow> real \<times> real \<times> real \<Rightarrow> Enemy \<Rightarrow> Game \<Rightarrow> py_error + (Enemy \<times> Game)" where
  "enemy_step delta_time current_time draws enemy g =
     (let jx = fst draws; jy = fst (snd draws); delay = snd (snd draws);
          dx = real_of_int (p_x (player g)) - e_x enemy;
          dy = real_of_int (p_y (player g)) - e_y enemy;
          distance = sqrt (dx\<^sup>2 + dy\<^sup>2);
          dx1 = (if distance > 0 then dx / distance else dx) + jx;
          dy1 = (if distance > 0 then dy / distance else dy) + jy;
          new_x = e_x enemy + dx1 * e_speed enemy * delta_time;
          new_y = e_y enemy + dy1 * e_speed enemy * delta_time;
          moved = (if 0 \<le> py_int new_x \<and> py_int new_x < width g \<and>
                      0 \<le> py_int new_y \<and> py_int new_y < height g
                   then (case tile g (py_int new_y) (py_int new_x) of
                           Inl err \<Rightarrow> Inl err
                         | Inr c \<Rightarrow> Inr (if c = FLOOR_CHAR
                                           then enemy\<lparr>e_x := new_x, e_y := new_y\<rparr>
                                           else enemy))
                   else Inr enemy)
      in case moved of
           Inl err \<Rightarrow> Inl err
         | Inr en \<Rightarrow>
             if current_time - e_last_shot_time en \<ge> e_shoot_delay en
             then
               let shot_dx = real_of_int (p_x (player g)) - e_x en;
                   shot_dy = real_of_int (p_y (player g)) - e_y en;
                   shot_distance = sqrt (shot_dx\<^sup>2 + shot_dy\<^sup>2);
                   sdx = (if shot_distance > 0 then shot_dx / shot_distance else shot_dx);
                   sdy = (if shot_distance > 0 then shot_dy / shot_distance else shot_dy)
               in Inr (en\<lparr>e_last_shot_time := current_time, e_shoot_delay := delay\<rparr>,
                       shoot (e_x en) (e_y en) sdx sdy True g)
             else Inr (en, g))"

text \<open>
  \<open>for enemy in self.enemies\<close>; \<open>rnd i\<close> holds the random draws for the enemy at
  place \<open>i\<close> of the list. The enemies are written back when the loop ends.
\<close>

fun update_enemies_loop ::
  "real \<Rightarrow> real \<Rightarrow> (nat \<Rightarrow> real \<times> real \<times> real) \<Rightarrow> Enemy list \<Rightarrow> Enemy list \<Rightarrow> Game
     \<Rightarrow> py_error + Game" where
  "update_enemies_loop delta_time current_time rnd visited [] g =
     Inr (g\<lparr>enemies := visited\<rparr>)"
| "update_enemies_loop delta_time current_time rnd visited (enemy # rest) g =
     (case enemy_step delta_time current_time (rnd (length visited)) enemy g of
        Inl err \<Rightarrow> Inl err
      | Inr (en, g') \<Rightarrow>
          update_enemies_loop delta_time current_time rnd (visited @ [en]) rest g')"

definition update_enemies ::
  "real \<Rightarrow> real \<Rightarrow> (nat \<Rightarrow> real \<times> real \<times> real) \<Rightarrow> Game \<Rightarrow> py_error + Game" where
  "update_enemies delta_time current_time rnd g =
     update_enemies_loop delta_time current_time rnd [] (enemies g) g"

section \<open>Predicates on games of the richer variant\<close>

text \<open>The map has \<open>height\<close> rows of \<open>width\<close> tiles, as \<open>generate_map\<close> builds it.\<close>

definition map_ok :: "Game \<Rightarrow> bool" where
  "map_ok g \<longleftrightarrow>
     length (game_map g) = nat (height g) \<and>
     list_all (\<lambda>row. length row = nat (width g)) (game_map g)"

text \<open>
  A projectile that update_projectiles has visited and left in the list: inside the grid,
  not on a wall tile, and not on the cell of an opponent (the player for an enemy
  projectile, any enemy for a player projectile).
\<close>

definition flying :: "Game \<Rightarrow> Projectile \<Rightarrow> bool" where
  "flying g p \<longleftrightarrow>
     \<not> out_of_bounds g p \<and>
     tile g (py_int (pr_y p)) (py_int (pr_x p)) \<noteq> Inr WALL_CHAR \<and>
     (if pr_is_enemy p then \<not> hits_player (player g) p
      else find (hits_enemy p) (enemies g) = None)"

text \<open>What update_projectiles never changes: the grid, the map, where the player stands.\<close>

definition same_board :: "Game \<Rightarrow> Game \<Rightarrow> bool" where
  "same_board g g' \<longleftrightarrow>
     width g' = width g \<and> height g' = height g \<and> game_map g' = game_map g \<and>
     p_x (player g') = p_x (player g) \<and> p_y (player g') = p_y (player g) \<and>
     last_update g' = last_update g"

text \<open>The cell (row, column) is the one the player stands on.\<close>

definition on_player :: "Game \<Rightarrow> int \<times> int \<Rightarrow> bool" where
  "on_player g cell \<longleftrightarrow> cell = (p_y (player g), p_x (player g))"

section \<open>Predicates on maps\<close>

text \<open>A grid of \<open>H\<close> rows of \<open>W\<close> cells.\<close>

definition grid_ok :: "nat \<Rightarrow> nat \<Rightarrow> 'a list list \<Rightarrow> bool" where
  "grid_ok H W m \<longleftrightarrow> length m = H \<and> list_all (\<lambda>row. length row = W) m"

text \<open>
  \<open>m'\<close> is \<open>m\<close> with the value \<open>c\<close> written to the cells \<open>P\<close> selects, and
  nothing else changed.
\<close>

definition painted ::
  "nat \<Rightarrow> nat \<Rightarrow> 'a \<Rightarrow> (nat \<Rightarrow> nat \<Rightarrow> bool) \<Rightarrow> 'a list list \<Rightarrow> 'a list list \<Rightarrow> bool" where
  "painted H W c P m m' \<longleftrightarrow>
     grid_ok H W m' \<and> (\<forall>y<H. \<forall>x<W. m' ! y ! x = (if P y x then c else m ! y ! x))"

text \<open>
  What \<open>random.randint(1, w - 2)\<close> and \<open>random.randint(1, h - 2)\<close> promise of the
  integers drawn for columns (even places) and rows (odd places).
\<close>

definition draws_ok :: "int \<Rightarrow> int \<Rightarrow> (nat \<Rightarrow> int) \<Rightarrow> bool" where
  "draws_ok w h ints \<longleftrightarrow>
     (\<forall>k. 1 \<le> ints (2 * k) \<and> ints (2 * k) \<le> w - 2 \<and>
          1 \<le> ints (2 * k + 1) \<and> ints (2 * k + 1) \<le> h - 2)"



text \<open>
  An advanced projectile meets the test that charges the player: inside the grid, off
  the walls, fired by an enemy, and on the player's cell.
\<close>

definition strikes :: "Game \<Rightarrow> Projectile \<Rightarrow> bool" where
  "strikes g p \<longleftrightarrow>
     \<not> out_of_bounds g p \<and>
     tile g (py_int (pr_y p)) (py_int (pr_x p)) \<noteq> Inr WALL_CHAR \<and>
     pr_is_enemy p \<and> hits_player (player g) p"

text \<open>The projectiles of the game that meet it once advanced by \<open>delta_time\<close>.\<close>

definition strikers :: "real \<Rightarrow> Game \<Rightarrow> Projectile list" where
  "strikers delta_time g =
     filter (\<lambda>p. strikes g (projectile_advance delta_time p)) (projectiles g)"

text \<open>The position (x, y) lies within [0, width) x [0, height).\<close>

definition inside :: "Game \<Rightarrow> real \<Rightarrow> real \<Rightarrow> bool" where
  "inside g x y \<longleftrightarrow>
     0 \<le> x \<and> x < real_of_int (width g) \<and> 0 \<le> y \<and> y < real_of_int (height g)"

text \<open>
  No tile of the first row or of the first column is floor, as on every map
  \<open>generate_map\<close> builds: \<open>int\<close> rounds a coordinate between -1 and 0 to 0, so
  these are the tiles \<open>update_enemies\<close> tests for a step that leaves the grid there.
\<close>

definition walled :: "Game \<Rightarrow> bool" where
  "walled g \<longleftrightarrow>
     list_all (\<lambda>x. tile g 0 x \<noteq> Inr FLOOR_CHAR) [0..width g - 1] \<and>
     list_all (\<lambda>y. tile g y 0 \<noteq> Inr FLOOR_CHAR) [0..height g - 1]"

text \<open>The map is well formed and walled, and every entity of the game is inside the grid.\<close>

definition all_inside :: "Game \<Rightarrow> bool" where
  "all_inside g \<longleftrightarrow>
     map_ok g \<and> walled g \<and>
     inside g (real_of_int (p_x (player g))) (real_of_int (p_y (player g))) \<and>
     list_all (\<lambda>e. inside g (e_x e) (e_y e)) (enemies g) \<and>
     list_all (\<lambda>q. inside g (pr_x q) (pr_y q)) (projectiles g)"

text \<open>The same of the game inside the loop of update_enemies, where the enemies are aside.\<close>

definition stage_inside :: "Game \<Rightarrow> bool" where
  "stage_inside g \<longleftrightarrow>
     map_ok g \<and> walled g \<and>
     inside g (real_of_int (p_x (player g))) (real_of_int (p_y (player g))) \<and>
     list_all (\<lambda>q. inside g (pr_x q) (pr_y q)) (projectiles g)"

subsection \<open>render\<close>

text \<open>
  The curses window is modelled by what was last written to each cell, a glyph and a
  colour pair, keyed by (row, column). \<open>addch\<close> and \<open>addstr\<close> of curses raise when
  they write outside the terminal window, whose size the program does not know; the
  model takes the window to be large enough.
\<close>

type_synonym screen = "int \<times> int \<Rightarrow> (string \<times> nat) option"

definition addch :: "int \<Rightarrow> int \<Rightarrow> string \<Rightarrow> nat \<Rightarrow> screen \<Rightarrow> screen" where
  "addch y x ch colour scr = scr((y, x) := Some (ch, colour))"

fun addstr :: "int \<Rightarrow> int \<Rightarrow> string \<Rightarrow> nat \<Rightarrow> screen \<Rightarrow> screen" where
  "addstr y x [] colour scr = scr"
| "addstr y x (c # cs) colour scr = addstr y (x + 1) cs colour (addch y x [c] colour scr)"

text \<open>The two nested loops over the map.\<close>

definition render_tile :: "Game \<Rightarrow> int \<Rightarrow> int \<Rightarrow> screen \<Rightarrow> py_error + screen" where
  "render_tile g y x scr =
     (case tile g y x of
        Inl err \<Rightarrow> Inl err
      | Inr c \<Rightarrow> Inr (addch y x c (if c = WALL_CHAR then COLOR_WALL else COLOR_FLOOR) scr))"

definition render_map :: "Game \<Rightarrow> screen \<Rightarrow> py_error + screen" where
  "render_map g scr =
     fold_err (\<lambda>y. fold_err (render_tile g y) [0..width g - 1]) [0..height g - 1] scr"

definition render_enemy :: "Enemy \<Rightarrow> screen \<Rightarrow> screen" where
  "render_enemy enemy scr =
     addch (py_int (e_y enemy)) (py_int (e_x enemy)) (e_char enemy) COLOR_ENEMY scr"

definition render_projectile :: "Projectile \<Rightarrow> screen \<Rightarrow> screen" where
  "render_projectile projectile scr =
     addch (py_int (pr_y projectile)) (py_int (pr_x projectile)) (pr_char projectile)
       (if pr_is_enemy projectile then COLOR_ENEMY_PROJECTILE else COLOR_PROJECTILE) scr"

definition status_line :: "Game \<Rightarrow> string" where
  "status_line g =
     ''Enemies Left: '' @ py_str (int (length (enemies g)))
     @ '' | Player Health: '' @ py_str (p_health (player g))
     @ '' | Ammo: '' @ py_str (p_ammo (player g))"

definition render :: "Game \<Rightarrow> py_error + screen" where
  "render g =
     (case render_map g (\<lambda>cell. None) of
        Inl err \<Rightarrow> Inl err
      | Inr scr1 \<Rightarrow>
          let scr2 = addch (p_y (player g)) (p_x (player g)) (p_char (player g))
                       COLOR_PLAYER scr1;
              scr3 = fold render_enemy (enemies g) scr2;
              scr4 = fold render_projectile (projectiles g) scr3
          in Inr (addstr (height g) 0 (status_line g) COLOR_STATUS scr4))"

text \<open>
  The win screen of \<open>run\<close>; \<open>max_y\<close> and \<open>max_x\<close> are what \<open>getmaxyx\<close> returns
  (the bold attribute of the first line is left out).
\<close>

definition win_screen :: "int \<Rightarrow> int \<Rightarrow> screen" where
  "win_screen max_y max_x =
     (let win_message = ''You Win!'';
          play_again_message = ''Press 'y' to play again or 'q' to quit'';
          win_y = max_y div 2 - 1;
          play_again_y = max_y div 2 + 1;
          win_x = (max_x - int (length win_message)) div 2;
          play_again_x = (max_x - int (length play_again_message)) div 2
      in addstr play_again_y play_again_x play_again_message COLOR_STATUS
           (addstr win_y win_x win_message COLOR_WIN_MESSAGE (\<lambda>cell. None)))"

subsection \<open>generate_map, spawn_entity and the constructor of the game\<close>

text \<open>
  \<open>ints\<close> lists the values \<open>random.randint\<close> returns, in the order of the calls.
  generate_map draws a column and a row for each of its random walls.
\<close>

definition generate_map :: "int \<Rightarrow> int \<Rightarrow> (nat \<Rightarrow> int) \<Rightarrow> py_error + string list list" where
  "generate_map w h ints =
     (let map_grid = replicate (nat h) (replicate (nat w) FLOOR_CHAR) in
      case fold_err (\<lambda>x m. case grid_set m 0 x WALL_CHAR of
                               Inl err \<Rightarrow> Inl err
                             | Inr m' \<Rightarrow> grid_set m' (h - 1) x WALL_CHAR)
             [0..w - 1] map_grid of
        Inl err \<Rightarrow> Inl err
      | Inr m1 \<Rightarrow>
          (case fold_err (\<lambda>y m. case grid_set m y 0 WALL_CHAR of
                                   Inl err \<Rightarrow> Inl err
                                 | Inr m' \<Rightarrow> grid_set m' y (w - 1) WALL_CHAR)
                  [0..h - 1] m1 of
             Inl err \<Rightarrow> Inl err
           | Inr m2 \<Rightarrow>
               fold_err (\<lambda>k m. grid_set m (ints (2 * k + 1)) (ints (2 * k)) WALL_CHAR)
                 [0..<nat (w * h div WALL_DENSITY)] m2))"

text \<open>
  spawn_entity draws a column and a row until they name a floor tile; \<open>k\<close> counts the
  random integers used so far. The loop has no bound: when no draw names a floor tile
  it never returns, which is \<open>None\<close> here.
\<close>

partial_function (option) spawn_entity ::
  "string list list \<Rightarrow> (nat \<Rightarrow> int) \<Rightarrow> nat \<Rightarrow> (py_error + (int \<times> int) \<times> nat) option" where
  "spawn_entity m ints k =
     (case grid_get m (ints (k + 1)) (ints k) of
        Inl err \<Rightarrow> Some (Inl err)
      | Inr c \<Rightarrow> if c = FLOOR_CHAR then Some (Inr ((ints k, ints (k + 1)), k + 2))
                 else spawn_entity m ints (k + 2))"

text \<open>
  What the constructor reads from outside: the random integers, and for the enemy at
  place \<open>i\<close> the clock and the shoot delay its own constructor reads, then the clock
  read for \<open>last_update\<close>.
\<close>

record init_input =
  ii_ints :: "nat \<Rightarrow> int"
  ii_times :: "nat \<Rightarrow> real"
  ii_delays :: "nat \<Rightarrow> real"
  ii_now :: real

text \<open>\<open>[self.spawn_entity(Enemy) for _ in range(n)]\<close>, after the enemies \<open>es\<close>.\<close>

fun spawn_enemies ::
  "nat \<Rightarrow> string list list \<Rightarrow> init_input \<Rightarrow> nat \<Rightarrow> Enemy list \<Rightarrow> (py_error + Enemy list) option" where
  "spawn_enemies 0 m inp k es = Some (Inr es)"
| "spawn_enemies (Suc n) m inp k es =
     (case spawn_entity m (ii_ints inp) k of
        None \<Rightarrow> None
      | Some (Inl err) \<Rightarrow> Some (Inl err)
      | Some (Inr (pos, k')) \<Rightarrow>
          spawn_enemies n m inp k'
            (es @ [Enemy (fst pos) (snd pos) (ii_times inp (length es))
                     (ii_delays inp (length es))]))"

definition Game_init :: "init_input \<Rightarrow> (py_error + Game) option" where
  "Game_init inp =
     (case generate_map MAP_WIDTH MAP_HEIGHT (ii_ints inp) of
        Inl err \<Rightarrow> Some (Inl err)
      | Inr m \<Rightarrow>
          (case spawn_entity m (ii_ints inp)
                  (2 * nat (MAP_WIDTH * MAP_HEIGHT div WALL_DENSITY)) of
             None \<Rightarrow> None
           | Some (Inl err) \<Rightarrow> Some (Inl err)
           | Some (Inr (pos, k)) \<Rightarrow>
               (case spawn_enemies NUM_ENEMIES m inp k [] of
                  None \<Rightarrow> None
                | Some (Inl err) \<Rightarrow> Some (Inl err)
                | Some (Inr es) \<Rightarrow>
                    Some (Inr \<lparr>width = MAP_WIDTH, height = MAP_HEIGHT, game_map = m,
                               player = Player (fst pos) (snd pos), enemies = es,
                               projectiles = [], last_update = ii_now inp,
                               game_over = False\<rparr>))))"

subsection \<open>run\<close>

text \<open>
  What one pass of the loop of \<open>run\<close> reads from outside: the clock of \<open>run\<close>, the
  key \<open>handle_input\<close> gets, and the clock and the random draws of update_enemies.
\<close>

record tick_input =
  ti_now :: real
  ti_key :: key
  ti_enemy_now :: real
  ti_rnd :: "nat \<Rightarrow> real \<times> real \<times> real"

text \<open>The pass up to and including \<open>render\<close>.\<close>

definition run_updates :: "tick_input \<Rightarrow> Game \<Rightarrow> py_error + Game \<times> screen" where
  "run_updates inp g =
     (let delta_time = ti_now inp - last_update g;
          g0 = g\<lparr>last_update := ti_now inp\<rparr>
      in case handle_input (ti_key inp) g0 of
           Inl err \<Rightarrow> Inl err
         | Inr g1 \<Rightarrow>
             (case update_projectiles delta_time g1 of
                Inl err \<Rightarrow> Inl err
              | Inr g2 \<Rightarrow>
                  (case update_enemies delta_time (ti_enemy_now inp) (ti_rnd inp) g2 of
                     Inl err \<Rightarrow> Inl err
                   | Inr g3 \<Rightarrow>
                       (case render g3 of
                          Inl err \<Rightarrow> Inl err
                        | Inr scr \<Rightarrow> Inr (g3, scr)))))"

text \<open>
  The inner \<open>while True\<close> of the win state reads keys until \<open>y\<close> or \<open>q\<close>: the first
  of the two among the keys read, or \<open>None\<close> when neither comes.
\<close>

fun win_prompt :: "key list \<Rightarrow> key option" where
  "win_prompt [] = None"
| "win_prompt (k # ks) =
     (if k = Ch CHR ''y'' then Some k
      else if k = Ch CHR ''q'' then Some k
      else win_prompt ks)"

text \<open>
  One pass of the loop of \<open>run\<close>. The result holds whether the pass entered the win
  state (\<open>if not self.enemies\<close>) and the game at the next loop head: after \<open>y\<close> the
  game built anew from \<open>fresh\<close>, after \<open>q\<close> the game with the game-over flag set.
  \<open>None\<close> is a pass that does not come back (no answer to the prompt, or a spawn that
  finds no floor).
\<close>

definition run_iteration ::
  "tick_input \<Rightarrow> key list \<Rightarrow> init_input \<Rightarrow> Game \<Rightarrow> (py_error + bool \<times> Game) option" where
  "run_iteration inp keys fresh g =
     (case run_updates inp g of
        Inl err \<Rightarrow> Some (Inl err)
      | Inr (g', scr) \<Rightarrow>
          if enemies g' = []
          then (case win_prompt keys of
                  None \<Rightarrow> None
                | Some k \<Rightarrow>
                    if k = Ch CHR ''y''
                    then (case Game_init fresh of
                            None \<Rightarrow> None
                          | Some (Inl err) \<Rightarrow> Some (Inl err)
                          | Some (Inr g'') \<Rightarrow> Some (Inr (True, g'')))
                    else Some (Inr (True, g'\<lparr>game_over := True\<rparr>)))
          else Some (Inr (False, g')))"

text \<open>The games that stand at the head of the loop of \<open>run\<close> in some run of the program.\<close>

inductive loop_head :: "Game \<Rightarrow> bool" where
  start: "Game_init inp = Some (Inr g) \<Longrightarrow> loop_head g"
| pass: "loop_head g \<Longrightarrow> \<not> game_over g \<Longrightarrow>
         run_iteration inp keys fresh g = Some (Inr (won, g')) \<Longrightarrow> loop_head g'"

section \<open>Concrete games\<close>

text \<open>A game on the default 40 x 20 grid whose only enemy stands right of the player.\<close>

definition bk_enemy_right :: bk_Game where
  "bk_enemy_right =
     (bk_Game_init 40 20 0)\<lparr>bk_enemies := [bk_Entity 21 10 ''E'' 0 0 True]\<rparr>"

text \<open>
  A map of the richer variant as \<open>generate_map\<close> builds it when every random wall
  falls on the tile (1, 1): walls on the border and on that tile, floor elsewhere.
\<close>

definition arena_map :: "string list list" where
  "arena_map =
     replicate 40 WALL_CHAR
     # (WALL_CHAR # WALL_CHAR # replicate 37 FLOOR_CHAR @ [WALL_CHAR])
     # replicate 17 (WALL_CHAR # replicate 38 FLOOR_CHAR @ [WALL_CHAR])
     @ [replicate 40 WALL_CHAR]"

text \<open>A game on that map: the player at (20, 10), one enemy at (25, 10), no projectile.\<close>

definition arena :: Game where
  "arena =
     \<lparr>width = MAP_WIDTH, height = MAP_HEIGHT, game_map = arena_map,
      player = Player 20 10, enemies = [Enemy 25 10 0 2], projectiles = [],
      last_update = 0, game_over = False\<rparr>"

text \<open>The same game with the ammunition spent.\<close>

definition arena_no_ammo :: Game where
  "arena_no_ammo = arena\<lparr>player := (Player 20 10)\<lparr>p_ammo := 0\<rparr>\<rparr>"

text \<open>The same game with a player projectile one step left of the enemy, flying right.\<close>

definition arena_shot :: Game where
  "arena_shot = arena\<lparr>projectiles := [Projectile 24 10 1 0 False]\<rparr>"

text \<open>The same game with one enemy projectile one step left of the player, flying right.\<close>

definition arena_one_hit :: Game where
  "arena_one_hit = arena\<lparr>projectiles := [Projectile 19 10 1 0 True]\<rparr>"

text \<open>
  The player down to 10 health, with an enemy projectile one step away on either side,
  each flying toward the player.
\<close>

definition arena_last_stand :: Game where
  "arena_last_stand =
     arena\<lparr>player := (Player 20 10)\<lparr>p_health := 10\<rparr>,
           projectiles := [Projectile 19 10 1 0 True, Projectile 21 10 (- 1) 0 True]\<rparr>"

text \<open>Unfolding rules that evaluate the concrete games.\<close>

lemmas arena_simps =
  arena_def arena_no_ammo_def arena_shot_def arena_one_hit_def arena_last_stand_def
  arena_map_def Projectile_def Enemy_def Player_def MAP_WIDTH_def MAP_HEIGHT_def
  WALL_CHAR_def FLOOR_CHAR_def

lemmas step_simps =
  update_projectiles_def projectile_step_def projectile_advance_def out_of_bounds_def
  tile_def py_get_def py_index_def py_int_def hits_enemy_def hits_player_def
  Let_def nth_append

text \<open>A simple game whose only bullet is on the right edge, flying right.\<close>

definition bk_edge_bullet :: bk_Game where
  "bk_edge_bullet =
     (bk_Game_init 40 20 0)\<lparr>bk_bullets := [bk_Entity 39 10 ARROW_RIGHT 1 0 False]\<rparr>"

text \<open>
  The arena with a player projectile at (38.5, 10) flying right: one second takes it
  past the grid, half a second onto the border wall.
\<close>

definition arena_edge :: Game where
  "arena_edge = arena\<lparr>projectiles := [Projectile 38.5 10 1 0 False]\<rparr>"

text \<open>
  A simple game with the player at (30, 10), an enemy at (24, 10) walking right toward
  the player and a bullet at (25, 10) flying left toward the enemy.
\<close>

definition bk_crossing :: bk_Game where
  "bk_crossing =
     (bk_Game_init 40 20 0)
       \<lparr>bk_player := bk_Entity 30 10 ''@'' 0 0 False,
        bk_bullets := [bk_Entity 25 10 ARROW_LEFT (- 1) 0 False],
        bk_enemies := [bk_Entity 24 10 ''E'' 0 0 True]\<rparr>"

text \<open>A simple game with two enemies on one cell and a bullet one step left of them.\<close>

definition bk_duel :: bk_Game where
  "bk_duel =
     (bk_Game_init 40 20 0)
       \<lparr>bk_bullets := [bk_Entity 24 10 ARROW_RIGHT 1 0 False],
        bk_enemies := [bk_Entity 25 10 ''E'' 0 0 True, bk_Entity 25 10 ''E'' 0 0 True]\<rparr>"

text \<open>The arena with its enemy standing on the player's cell.\<close>

definition arena_overlap :: Game where
  "arena_overlap = arena\<lparr>enemies := [Enemy 20 10 0 2]\<rparr>"

text \<open>A simple game with an enemy standing on the player's cell.\<close>

definition bk_overlap :: bk_Game where
  "bk_overlap = (bk_Game_init 40 20 0)\<lparr>bk_enemies := [bk_Entity 20 10 ''E'' 0 0 True]\<rparr>"

text \<open>
  Inputs of the constructor that put every random wall on (1, 1) and spawn the player
  and the ten enemies on (5, 5).
\<close>

definition arena_seed :: init_input where
  "arena_seed =
     \<lparr>ii_ints = (\<lambda>k. if k < 52 then 1 else 5), ii_times = (\<lambda>i. 0),
      ii_delays = (\<lambda>i. 2), ii_now = 0\<rparr>"

text \<open>The game the constructor builds from them.\<close>

definition arena_start :: Game where
  "arena_start =
     \<lparr>width = MAP_WIDTH, height = MAP_HEIGHT, game_map = arena_map,
      player = Player 5 5, enemies = replicate 10 (Enemy 5 5 0 2), projectiles = [],
      last_update = 0, game_over = False\<rparr>"



text \<open>
  The simple game on the default grid after the player has walked right 19 times, to
  the last column.
\<close>

definition bk_at_edge :: bk_Game where
  "bk_at_edge = ((bk_handle_key CHR ''d'') ^^ 19) (bk_Game_init 40 20 0)"

text \<open>
  The game \<open>arena_start\<close> after the player has shot to the right, and after the
  projectile has flown for half a second.
\<close>

definition arena_fired :: Game where
  "arena_fired =
     arena_start\<lparr>player := (Player 5 5)\<lparr>p_ammo := 9\<rparr>,
                 projectiles := [Projectile 5 5 1 0 False]\<rparr>"

definition arena_flown :: Game where
  "arena_flown =
     arena_start\<lparr>player := (Player 5 5)\<lparr>p_ammo := 9\<rparr>,
                 projectiles := [Projectile 6 5 1 0 False]\<rparr>"

text \<open>
  The game \<open>arena_start\<close> after update_enemies at time 2, when each of the ten enemies
  (all on the player's cell) has fired once.
\<close>

definition arena_volley :: Game where
  "arena_volley =
     arena_start\<lparr>enemies := replicate 10 (Enemy 5 5 2 2),
                 projectiles := replicate 10 (Projectile 5 5 0 0 True)\<rparr>"

section \<open>Facts about the Python primitives\<close>

lemma py_int_small: "- 1 < r \<Longrightarrow> r < 1 \<Longrightarrow> py_int r = 0"
  unfolding py_int_def by (auto simp: ceiling_eq_iff floor_eq_iff)

lemma py_int_one: "1 \<le> r \<Longrightarrow> r < 2 \<Longrightarrow> py_int r = 1"
  unfolding py_int_def by (auto simp: floor_eq_iff)

lemma py_int_neg_half: "py_int (- (1 / 2)) = 0"
  by (rule py_int_small) simp_all

lemma py_int_half: "py_int (1 / 2) = 0"
  by (rule py_int_small) simp_all

lemma py_int_three_halves: "py_int (3 / 2) = 1"
  by (rule py_int_one) simp_all

section \<open>The simple variant: enemy movement\<close>

text \<open>
  C1: an enemy adjacent to the player moves onto the player in one tick and ends the
  game, from either side. The code does so only for an enemy on the side of smaller
  coordinates: \<open>int\<close> truncates toward zero, so \<open>int(-1.0 + 0.5)\<close> is 0, and an enemy
  at (21, 10) with the player at (20, 10) stays where it is and the game goes on.
\<close>

theorem bk_move_enemies_right_neighbour_stays:
  "bk_player bk_enemy_right = bk_Entity 20 10 ''@'' 0 0 False \<and>
   bk_enemies (bk_move_enemies bk_enemy_right) = [bk_Entity 21 10 ''E'' 0 0 True] \<and>
   bk_game_over (bk_move_enemies bk_enemy_right) = False"
  by (simp add: bk_enemy_right_def bk_Game_init_def bk_move_enemies_def bk_Entity_def
      bk_enemy_advance_def py_int_neg_half py_int_half Let_def)

section \<open>Lists and lookups\<close>

lemma find_Some_mem: "find P xs = Some x \<Longrightarrow> x \<in> set xs \<and> P x"
  by (induction xs) (auto split: if_splits)

lemma in_set_remove1D: "x \<in> set (remove1 y xs) \<Longrightarrow> x \<in> set xs"
  using set_remove1_subset by fast

lemma length_remove1_found:
  assumes "find P xs = Some x"
  shows "int (length (remove1 x xs)) = int (length xs) - 1"
proof -
  from assms have mem: "x \<in> set xs" by (simp add: find_Some_mem)
  then have "0 < length xs" by (rule length_pos_if_in_set)
  moreover have "length (remove1 x xs) = length xs - 1"
    using mem by (simp add: length_remove1)
  ultimately show ?thesis by linarith
qed

section \<open>The richer variant: shooting and ammunition\<close>

lemma shoot_no_ammo: "p_ammo (player g) \<le> 0 \<Longrightarrow> shoot x y dx dy False g = g"
  by (simp add: shoot_def)

lemma shoot_with_ammo:
  "0 < p_ammo (player g) \<Longrightarrow>
   shoot x y dx dy False g =
     g\<lparr>player := (player g)\<lparr>p_ammo := p_ammo (player g) - 1\<rparr>,
       projectiles := projectiles g @ [Projectile x y dx dy False]\<rparr>"
  by (simp add: shoot_def Let_def)

lemma projectile_step_ammo:
  assumes "projectile_step dt p g = Inr (r, g')"
  shows "p_ammo (player g') =
         p_ammo (player g) + 2 * (int (length (enemies g)) - int (length (enemies g')))"
  using assms
  by (auto simp: projectile_step_def Let_def length_remove1_found
      split: if_splits sum.splits option.splits)

lemma update_projectiles_loop_ammo:
  "update_projectiles_loop dt kept ps g = Inr g' \<Longrightarrow>
   p_ammo (player g') =
   p_ammo (player g) + 2 * (int (length (enemies g)) - int (length (enemies g')))"
proof (induction ps arbitrary: kept g)
  case Nil
  then show ?case by auto
next
  case (Cons p ps)
  then show ?case
    by (auto split: sum.splits option.splits dest!: projectile_step_ammo)
qed

lemma projectile_step_kill:
  assumes "projectile_step dt p g = Inr (r, g')"
  shows "(enemies g' = enemies g \<and> p_ammo (player g') = p_ammo (player g)) \<or>
         (length (enemies g') + 1 = length (enemies g) \<and> p_ammo (player g') = p_ammo (player g) + 2)"
  using assms length_remove1_found[of "hits_enemy (projectile_advance dt p)" "enemies g"]
  by (auto simp: projectile_step_def Let_def 
      split: if_splits sum.splits option.splits)

text \<open>
  C8: a player shot with no ammunition appends no projectile and changes nothing; with
  ammunition it appends exactly one projectile and takes one round; each enemy kill (a
  step of the projectile loop that removes an enemy) adds exactly two rounds, so over a
  whole projectile update the rounds gained are twice the enemies removed.
\<close>

theorem shoot_player_ammo_gate:
  "(p_ammo (player g) \<le> 0 \<longrightarrow> shoot x y dx dy False g = g) \<and>
   (0 < p_ammo (player g) \<longrightarrow>
      shoot x y dx dy False g =
        g\<lparr>player := (player g)\<lparr>p_ammo := p_ammo (player g) - 1\<rparr>,
          projectiles := projectiles g @ [Projectile x y dx dy False]\<rparr>) \<and>
   (projectile_step dt p g = Inr (r, g1) \<longrightarrow>
      (enemies g1 = enemies g \<and> p_ammo (player g1) = p_ammo (player g)) \<or>
      (length (enemies g1) + 1 = length (enemies g) \<and>
       p_ammo (player g1) = p_ammo (player g) + 2)) \<and>
   (update_projectiles dt g = Inr g' \<longrightarrow>
      p_ammo (player g') =
      p_ammo (player g) + 2 * (int (length (enemies g)) - int (length (enemies g'))))"
proof (intro conjI impI)
  assume "projectile_step dt p g = Inr (r, g1)"
  then show "(enemies g1 = enemies g \<and> p_ammo (player g1) = p_ammo (player g)) \<or>
      (length (enemies g1) + 1 = length (enemies g) \<and>
       p_ammo (player g1) = p_ammo (player g) + 2)"
    by (rule projectile_step_kill)
next
  assume "update_projectiles dt g = Inr g'"
  then show "p_ammo (player g') =
      p_ammo (player g) + 2 * (int (length (enemies g)) - int (length (enemies g')))"
    unfolding update_projectiles_def by (rule update_projectiles_loop_ammo)
qed (simp_all add: shoot_no_ammo shoot_with_ammo)

theorem shoot_player_ammo_gate_witness:
  "shoot 20 10 1 0 False arena_no_ammo = arena_no_ammo \<and>
   shoot 20 10 1 0 False arena =
     arena\<lparr>player := (Player 20 10)\<lparr>p_ammo := 9\<rparr>,
           projectiles := [Projectile 20 10 1 0 False]\<rparr> \<and>
   update_projectiles (1 / 2) arena_shot =
     Inr (arena\<lparr>enemies := [], player := (Player 20 10)\<lparr>p_ammo := 12\<rparr>\<rparr>) \<and>
   p_ammo (player (arena\<lparr>enemies := [], player := (Player 20 10)\<lparr>p_ammo := 12\<rparr>\<rparr>)) =
     p_ammo (player arena_shot) + 2"
proof -
  have empty: "p_ammo (player arena_no_ammo) \<le> 0"
    by (simp add: arena_no_ammo_def)
  have full: "0 < p_ammo (player arena)"
    by (simp add: arena_def Player_def)
  have run: "update_projectiles (1 / 2) arena_shot =
     Inr (arena\<lparr>enemies := [], player := (Player 20 10)\<lparr>p_ammo := 12\<rparr>\<rparr>)"
    by (simp add: arena_simps step_simps)
  from shoot_player_ammo_gate[of arena_no_ammo 20 10 1 0] empty
  have a: "shoot 20 10 1 0 False arena_no_ammo = arena_no_ammo" by blast
  from shoot_player_ammo_gate[of arena 20 10 1 0] full
  have b: "shoot 20 10 1 0 False arena =
     arena\<lparr>player := (Player 20 10)\<lparr>p_ammo := 9\<rparr>,
           projectiles := [Projectile 20 10 1 0 False]\<rparr>"
    by (simp add: arena_def Player_def)
  from shoot_player_ammo_gate[where g = arena_shot and dt = "1 / 2" and
      g' = "arena\<lparr>enemies := [], player := (Player 20 10)\<lparr>p_ammo := 12\<rparr>\<rparr>"] run
  have c: "p_ammo (player (arena\<lparr>enemies := [], player := (Player 20 10)\<lparr>p_ammo := 12\<rparr>\<rparr>)) =
     p_ammo (player arena_shot) + 2"
    by (simp add: arena_shot_def arena_def)
  from a b run c show ?thesis by blast
qed

text \<open>
  C10: a shot fired for an enemy (\<open>is_enemy=True\<close>) always appends exactly one
  projectile, whatever the player's ammunition, and leaves the player (ammunition,
  health, position), the enemies and the game-over flag as they were.
\<close>

theorem shoot_enemy_unconditional:
  "shoot x y dx dy True g = g\<lparr>projectiles := projectiles g @ [Projectile x y dx dy True]\<rparr> \<and>
   length (projectiles (shoot x y dx dy True g)) = length (projectiles g) + 1 \<and>
   player (shoot x y dx dy True g) = player g \<and>
   enemies (shoot x y dx dy True g) = enemies g \<and>
   game_over (shoot x y dx dy True g) = game_over g"
  by (simp add: shoot_def Let_def)

section \<open>The simple variant: the bullet loop\<close>

lemma bk_out_of_bounds_frame [simp]:
  "bk_out_of_bounds (g\<lparr>bk_enemies := es, bk_score := s\<rparr>) b = bk_out_of_bounds g b"
  by (simp add: bk_out_of_bounds_def)

lemma find_None_remove1: "find P xs = None \<Longrightarrow> find P (remove1 x xs) = None"
  by (auto simp: find_None_iff dest: notin_set_remove1)

lemma bk_settled_remove:
  "bk_settled g b \<Longrightarrow> bk_settled (g\<lparr>bk_enemies := remove1 e (bk_enemies g), bk_score := s\<rparr>) b"
  by (simp add: bk_settled_def find_None_remove1)

lemma remove1_last_fresh: "x \<notin> set xs \<Longrightarrow> remove1 x (xs @ [x]) = xs"
  by (simp add: remove1_append)

lemma bk_bullet_step_out:
  assumes "list_all (bk_settled g) visited" and "bk_out_of_bounds g (bk_bullet_advance b)"
  shows "bk_bullet_step visited b g = (visited, g)"
proof -
  from assms have "bk_bullet_advance b \<notin> set visited"
    by (auto simp: list_all_iff bk_settled_def)
  with assms(2) show ?thesis by (simp add: bk_bullet_step_def remove1_last_fresh)
qed

lemma bk_bullet_step_hit:
  assumes "list_all (bk_settled g) visited" and "\<not> bk_out_of_bounds g (bk_bullet_advance b)"
    and "find (bk_same_cell (bk_bullet_advance b)) (bk_enemies g) = Some e"
  shows "bk_bullet_step visited b g =
         (visited, g\<lparr>bk_enemies := remove1 e (bk_enemies g), bk_score := bk_score g + 10\<rparr>)"
proof -
  from assms(1,3) have "bk_bullet_advance b \<notin> set visited"
    by (auto simp: list_all_iff bk_settled_def)
  with assms(2,3) show ?thesis by (simp add: bk_bullet_step_def remove1_last_fresh)
qed

lemma bk_bullet_step_miss:
  assumes "\<not> bk_out_of_bounds g (bk_bullet_advance b)"
    and "find (bk_same_cell (bk_bullet_advance b)) (bk_enemies g) = None"
  shows "bk_bullet_step visited b g = (visited @ [bk_bullet_advance b], g)"
  using assms by (simp add: bk_bullet_step_def)

lemma bk_step_out:
  assumes "list_all (bk_settled g) visited" and "bk_out_of_bounds g (bk_bullet_advance b)"
  shows "bk_update_bullets_loop visited (b # rest) g = bk_update_bullets_loop visited rest g"
  by (simp add: bk_bullet_step_out[OF assms])

lemma bk_step_hit:
  assumes "list_all (bk_settled g) visited" and "\<not> bk_out_of_bounds g (bk_bullet_advance b)"
    and "find (bk_same_cell (bk_bullet_advance b)) (bk_enemies g) = Some e"
  shows "bk_update_bullets_loop visited (b # rest) g =
         bk_update_bullets_loop visited rest
           (g\<lparr>bk_enemies := remove1 e (bk_enemies g), bk_score := bk_score g + 10\<rparr>)"
  by (simp add: bk_bullet_step_hit[OF assms])

lemma bk_step_miss:
  assumes "\<not> bk_out_of_bounds g (bk_bullet_advance b)"
    and "find (bk_same_cell (bk_bullet_advance b)) (bk_enemies g) = None"
  shows "bk_update_bullets_loop visited (b # rest) g =
         bk_update_bullets_loop (visited @ [bk_bullet_advance b]) rest g"
  by (simp add: bk_bullet_step_miss[OF assms])

text \<open>What a step and the loop leave untouched.\<close>

lemma bk_bullet_step_frame:
  assumes "bk_bullet_step visited b g = (visited', g')"
  shows "bk_width g' = bk_width g \<and> bk_height g' = bk_height g \<and>
         bk_player g' = bk_player g \<and> bk_game_over g' = bk_game_over g \<and>
         set (bk_enemies g') \<subseteq> set (bk_enemies g)"
  using assms
  by (auto simp: bk_bullet_step_def Let_def split: if_splits option.splits
      dest: in_set_remove1D)

lemma bk_update_bullets_loop_frame:
  "bk_width (bk_update_bullets_loop visited todo g) = bk_width g \<and>
   bk_height (bk_update_bullets_loop visited todo g) = bk_height g \<and>
   bk_player (bk_update_bullets_loop visited todo g) = bk_player g \<and>
   bk_game_over (bk_update_bullets_loop visited todo g) = bk_game_over g \<and>
   set (bk_enemies (bk_update_bullets_loop visited todo g)) \<subseteq> set (bk_enemies g)"
proof (induction todo arbitrary: visited g)
  case Nil
  then show ?case by simp
next
  case (Cons b todo)
  obtain visited' g' where step: "bk_bullet_step visited b g = (visited', g')"
    by (cases "bk_bullet_step visited b g")
  from Cons.IH[of visited' g'] bk_bullet_step_frame[OF step] show ?case
    by (auto simp: step)
qed

lemma bk_update_bullets_loop_settled:
  "list_all (bk_settled g) visited \<Longrightarrow>
   list_all (bk_settled (bk_update_bullets_loop visited todo g))
     (bk_bullets (bk_update_bullets_loop visited todo g))"
proof (induction todo arbitrary: visited g)
  case Nil
  then show ?case by (simp add: bk_settled_def bk_out_of_bounds_def)
next
  case (Cons b todo)
  let ?b = "bk_bullet_advance b"
  show ?case
  proof (cases "bk_out_of_bounds g ?b")
    case True
    with Cons show ?thesis by (simp only: bk_step_out)
  next
    case inside: False
    show ?thesis
    proof (cases "find (bk_same_cell ?b) (bk_enemies g)")
      case None
      from inside None have "bk_settled g ?b"
        by (simp add: bk_settled_def)
      with Cons.prems have "list_all (bk_settled g) (visited @ [?b])"
        by simp
      from Cons.IH[OF this] show ?thesis by (simp only: bk_step_miss[OF inside None])
    next
      case (Some e)
      let ?g = "g\<lparr>bk_enemies := remove1 e (bk_enemies g), bk_score := bk_score g + 10\<rparr>"
      from Cons.prems have "list_all (bk_settled ?g) visited"
        by (simp add: list_all_iff bk_settled_remove)
      from Cons.IH[OF this] show ?thesis
        by (simp only: bk_step_hit[OF Cons.prems inside Some])
    qed
  qed
qed

lemma bk_update_bullets_loop_count:
  "list_all (bk_settled g) visited \<Longrightarrow>
   length (bk_enemies (bk_update_bullets_loop visited todo g)) \<le> length (bk_enemies g) \<and>
   bk_score (bk_update_bullets_loop visited todo g) =
     bk_score g + 10 * (int (length (bk_enemies g)) -
                        int (length (bk_enemies (bk_update_bullets_loop visited todo g)))) \<and>
   int (length (bk_bullets (bk_update_bullets_loop visited todo g))) =
     int (length visited) + int (length todo)
     - int (length (filter (\<lambda>b. bk_out_of_bounds g (bk_bullet_advance b)) todo))
     - (int (length (bk_enemies g)) -
        int (length (bk_enemies (bk_update_bullets_loop visited todo g))))"
proof (induction todo arbitrary: visited g)
  case Nil
  then show ?case by simp
next
  case (Cons b todo)
  let ?b = "bk_bullet_advance b"
  show ?case
  proof (cases "bk_out_of_bounds g ?b")
    case True
    from Cons.IH[OF Cons.prems] True show ?thesis
      by (simp only: bk_step_out[OF Cons.prems True]) simp
  next
    case inside: False
    show ?thesis
    proof (cases "find (bk_same_cell ?b) (bk_enemies g)")
      case None
      from inside None have "bk_settled g ?b"
        by (simp add: bk_settled_def)
      with Cons.prems have "list_all (bk_settled g) (visited @ [?b])"
        by simp
      from Cons.IH[OF this] inside show ?thesis
        by (simp only: bk_step_miss[OF inside None]) simp
    next
      case (Some e)
      let ?g = "g\<lparr>bk_enemies := remove1 e (bk_enemies g), bk_score := bk_score g + 10\<rparr>"
      from Cons.prems have "list_all (bk_settled ?g) visited"
        by (simp add: list_all_iff bk_settled_remove)
      from Cons.IH[OF this] inside length_remove1_found[OF Some] show ?thesis
        by (simp only: bk_step_hit[OF Cons.prems inside Some]) simp
    qed
  qed
qed

lemma bk_update_bullets_loop_subseq:
  "list_all (bk_settled g) visited \<Longrightarrow>
   \<exists>ys. bk_bullets (bk_update_bullets_loop visited todo g) = visited @ ys \<and>
        subseq ys (filter (\<lambda>b. \<not> bk_out_of_bounds g b) (map bk_bullet_advance todo))"
proof (induction todo arbitrary: visited g)
  case Nil
  then show ?case by simp
next
  case (Cons b todo)
  let ?b = "bk_bullet_advance b"
  show ?case
  proof (cases "bk_out_of_bounds g ?b")
    case True
    from Cons.IH[OF Cons.prems] True show ?thesis
      by (simp only: bk_step_out[OF Cons.prems True]) simp
  next
    case inside: False
    show ?thesis
    proof (cases "find (bk_same_cell ?b) (bk_enemies g)")
      case None
      from inside None have "bk_settled g ?b"
        by (simp add: bk_settled_def)
      with Cons.prems have "list_all (bk_settled g) (visited @ [?b])"
        by simp
      from Cons.IH[OF this] obtain ys where
        "bk_bullets (bk_update_bullets_loop (visited @ [?b]) todo g) = (visited @ [?b]) @ ys"
        "subseq ys (filter (\<lambda>b. \<not> bk_out_of_bounds g b) (map bk_bullet_advance todo))"
        by blast
      with inside show ?thesis
        by (simp only: bk_step_miss[OF inside None]) (intro exI[of _ "?b # ys"], simp)
    next
      case (Some e)
      let ?g = "g\<lparr>bk_enemies := remove1 e (bk_enemies g), bk_score := bk_score g + 10\<rparr>"
      from Cons.prems have "list_all (bk_settled ?g) visited"
        by (simp add: list_all_iff bk_settled_remove)
      from Cons.IH[OF this] obtain ys where
        "bk_bullets (bk_update_bullets_loop visited todo ?g) = visited @ ys"
        "subseq ys (filter (\<lambda>b. \<not> bk_out_of_bounds g b) (map bk_bullet_advance todo))"
        by auto
      with inside show ?thesis
        by (simp only: bk_step_hit[OF Cons.prems inside Some]) (intro exI[of _ ys], auto)
    qed
  qed
qed

section \<open>The simple variant: one step of an enemy\<close>

lemma unit_step_eq:
  assumes nz: "sqrt (real_of_int (dx * dx + dy * dy)) \<noteq> 0"
  shows "py_int (real_of_int dx / sqrt (real_of_int (dx * dx + dy * dy)) + 0.5) =
         (if 0 < dx \<and> dy * dy \<le> 3 * dx * dx then 1 else 0)"
proof -
  define d where "d = sqrt (real_of_int (dx * dx + dy * dy))"
  have nonneg: "0 \<le> real_of_int (dx * dx + dy * dy)"
    by simp
  have pos: "0 < d"
    using nz nonneg unfolding d_def by (simp add: less_le)
  have sq: "d * d = real_of_int (dx * dx + dy * dy)"
    unfolding d_def using nonneg by simp
  have le: "\<bar>real_of_int dx\<bar> \<le> d"
    unfolding d_def by (rule real_le_rsqrt) (simp add: power2_eq_square)
  have u_lo: "- 1 \<le> real_of_int dx / d" and u_hi: "real_of_int dx / d \<le> 1"
    using le pos by (simp_all add: pos_le_divide_eq pos_divide_le_eq)
  show ?thesis
  proof (cases "0 < dx")
    case False
    then have "real_of_int dx / d \<le> 0"
      using pos by (simp add: divide_le_0_iff)
    with u_lo have "py_int (real_of_int dx / d + 0.5) = 0"
      by (intro py_int_small) linarith+
    with False show ?thesis by (simp add: d_def)
  next
    case True
    have half: "1 / 2 \<le> real_of_int dx / d \<longleftrightarrow> d \<le> 2 * real_of_int dx"
      using pos by (simp add: pos_le_divide_eq mult.commute)
    have far: "d \<le> 2 * real_of_int dx \<longleftrightarrow> dy * dy \<le> 3 * dx * dx"
    proof
      assume "d \<le> 2 * real_of_int dx"
      then have "d * d \<le> (2 * real_of_int dx) * (2 * real_of_int dx)"
        using pos by (intro mult_mono) simp_all
      then have "real_of_int (dx * dx + dy * dy) \<le> real_of_int (4 * dx * dx)"
        using sq by simp
      then have "dx * dx + dy * dy \<le> 4 * dx * dx"
        by (simp only: of_int_le_iff)
      then show "dy * dy \<le> 3 * dx * dx" by simp
    next
      assume "dy * dy \<le> 3 * dx * dx"
      then have "dx * dx + dy * dy \<le> 4 * dx * dx" by simp
      then have "real_of_int (dx * dx + dy * dy) \<le> real_of_int (4 * dx * dx)"
        by (simp only: of_int_le_iff)
      then have "real_of_int (dx * dx + dy * dy) \<le> (2 * real_of_int dx)\<^sup>2"
        by (simp add: power2_eq_square)
      then show "d \<le> 2 * real_of_int dx"
        unfolding d_def using True by (intro real_le_lsqrt) simp_all
    qed
    show ?thesis
    proof (cases "dy * dy \<le> 3 * dx * dx")
      case near: True
      then have "1 / 2 \<le> real_of_int dx / d" using half far by simp
      with u_hi have "py_int (real_of_int dx / d + 0.5) = 1"
        by (intro py_int_one) linarith+
      with True near show ?thesis by (simp add: d_def)
    next
      case off: False
      then have "real_of_int dx / d < 1 / 2" using half far by simp
      with u_lo have "py_int (real_of_int dx / d + 0.5) = 0"
        by (intro py_int_small) linarith+
      with True off show ?thesis by (simp add: d_def)
    qed
  qed
qed

lemma bk_enemy_advance_eq:
  "bk_enemy_advance pl e =
     (let dx = bk_x pl - bk_x e; dy = bk_y pl - bk_y e in
      e\<lparr>bk_x := bk_x e + (if 0 < dx \<and> dy * dy \<le> 3 * dx * dx then 1 else 0),
        bk_y := bk_y e + (if 0 < dy \<and> dx * dx \<le> 3 * dy * dy then 1 else 0)\<rparr>)"
proof -
  define dx where "dx = bk_x pl - bk_x e"
  define dy where "dy = bk_y pl - bk_y e"
  show ?thesis
  proof (cases "sqrt (real_of_int (dx * dx + dy * dy)) = 0")
    case True
    then have "dx * dx + dy * dy = 0" by simp
    then have "dx = 0 \<and> dy = 0"
      by (simp add: sum_squares_eq_zero_iff)
    with True show ?thesis
      by (simp add: bk_enemy_advance_def Let_def dx_def dy_def)
  next
    case False
    then have flip: "sqrt (real_of_int (dy * dy + dx * dx)) \<noteq> 0"
      by (simp add: add.commute)
    have swap: "sqrt (real_of_int (dx * dx + dy * dy)) = sqrt (real_of_int (dy * dy + dx * dx))"
      by (simp add: add.commute)
    have X: "py_int (real_of_int dx / sqrt (real_of_int (dx * dx + dy * dy)) + 0.5) =
         (if 0 < dx \<and> dy * dy \<le> 3 * dx * dx then 1 else 0)"
      by (rule unit_step_eq[OF False])
    have Y: "py_int (real_of_int dy / sqrt (real_of_int (dx * dx + dy * dy)) + 0.5) =
         (if 0 < dy \<and> dx * dx \<le> 3 * dy * dy then 1 else 0)"
      unfolding swap by (rule unit_step_eq[OF flip])
    show ?thesis
      unfolding bk_enemy_advance_def Let_def dx_def[symmetric] dy_def[symmetric]
      by (simp only: X Y False not_False_eq_True if_True)
  qed
qed

section \<open>The richer variant: the projectile loop\<close>

lemma same_board_refl [simp]: "same_board g g"
  by (simp add: same_board_def)

lemma same_board_trans: "same_board g g1 \<Longrightarrow> same_board g1 g2 \<Longrightarrow> same_board g g2"
  by (simp add: same_board_def)

lemma same_board_projectiles [simp]: "same_board g (g'\<lparr>projectiles := ps\<rparr>) = same_board g g'"
  by (simp add: same_board_def)

lemma py_int_nonneg: "0 \<le> r \<Longrightarrow> py_int r = \<lfloor>r\<rfloor>"
  by (simp add: py_int_def)

lemma tile_inside:
  assumes "map_ok g" and "0 \<le> y" and "y < height g" and "0 \<le> x" and "x < width g"
  shows "tile g y x = Inr (game_map g ! nat y ! nat x)"
proof -
  from assms have row: "nat y < length (game_map g)"
    by (simp add: map_ok_def)
  with assms(1) have "length (game_map g ! nat y) = nat (width g)"
    by (simp add: map_ok_def list_all_length)
  with assms row show ?thesis
    by (simp add: tile_def py_get_def py_index_def map_ok_def)
qed

lemma tile_projectile:
  assumes "map_ok g" and "\<not> out_of_bounds g p"
  shows "\<exists>c. tile g (py_int (pr_y p)) (py_int (pr_x p)) = Inr c"
proof -
  from assms(2) have "0 \<le> pr_x p" "pr_x p < real_of_int (width g)"
    "0 \<le> pr_y p" "pr_y p < real_of_int (height g)"
    by (simp_all add: out_of_bounds_def not_le not_less)
  then have "0 \<le> py_int (pr_x p)" "py_int (pr_x p) < width g"
    "0 \<le> py_int (pr_y p)" "py_int (pr_y p) < height g"
    by (simp_all add: py_int_nonneg floor_less_iff)
  with assms(1) show ?thesis by (simp add: tile_inside)
qed

lemma projectile_step_out:
  "out_of_bounds g (projectile_advance dt p) \<Longrightarrow> projectile_step dt p g = Inr (None, g)"
  by (simp add: projectile_step_def)

lemma projectile_step_wall:
  "\<not> out_of_bounds g (projectile_advance dt p) \<Longrightarrow>
   tile g (py_int (pr_y (projectile_advance dt p))) (py_int (pr_x (projectile_advance dt p)))
     = Inr WALL_CHAR \<Longrightarrow>
   projectile_step dt p g = Inr (None, g)"
  by (simp add: projectile_step_def)

lemma projectile_step_player_hit:
  "\<not> out_of_bounds g (projectile_advance dt p) \<Longrightarrow>
   tile g (py_int (pr_y (projectile_advance dt p))) (py_int (pr_x (projectile_advance dt p)))
     = Inr c \<Longrightarrow> c \<noteq> WALL_CHAR \<Longrightarrow> pr_is_enemy p \<Longrightarrow>
   hits_player (player g) (projectile_advance dt p) \<Longrightarrow>
   projectile_step dt p g =
     Inr (None, g\<lparr>player := (player g)\<lparr>p_health := p_health (player g) - 10\<rparr>,
                   game_over := game_over g \<or> p_health (player g) - 10 \<le> 0\<rparr>)"
  by (simp add: projectile_step_def Let_def projectile_advance_def)

lemma projectile_step_enemy_hit:
  "\<not> out_of_bounds g (projectile_advance dt p) \<Longrightarrow>
   tile g (py_int (pr_y (projectile_advance dt p))) (py_int (pr_x (projectile_advance dt p)))
     = Inr c \<Longrightarrow> c \<noteq> WALL_CHAR \<Longrightarrow> \<not> pr_is_enemy p \<Longrightarrow>
   find (hits_enemy (projectile_advance dt p)) (enemies g) = Some e \<Longrightarrow>
   projectile_step dt p g =
     Inr (None, g\<lparr>enemies := remove1 e (enemies g),
                   player := (player g)\<lparr>p_ammo := p_ammo (player g) + 2\<rparr>\<rparr>)"
  by (simp add: projectile_step_def Let_def projectile_advance_def)

lemma projectile_step_total:
  assumes "map_ok g"
  shows "\<exists>r g'. projectile_step dt p g = Inr (r, g')"
proof (cases "out_of_bounds g (projectile_advance dt p)")
  case True
  then show ?thesis by (simp add: projectile_step_out)
next
  case False
  with assms obtain c where
    "tile g (py_int (pr_y (projectile_advance dt p))) (py_int (pr_x (projectile_advance dt p)))
       = Inr c"
    using tile_projectile by blast
  with False show ?thesis
    by (simp add: projectile_step_def Let_def split: option.splits)
qed

lemma projectile_step_effect:
  assumes "projectile_step dt p g = Inr (r, g')"
  shows "same_board g g' \<and> projectiles g' = projectiles g \<and>
         set (enemies g') \<subseteq> set (enemies g) \<and>
         (case r of None \<Rightarrow> True
          | Some q \<Rightarrow> q = projectile_advance dt p \<and> g' = g \<and> flying g q)"
  using assms
  by (auto simp: projectile_step_def Let_def same_board_def flying_def
      split: if_splits sum.splits option.splits dest: in_set_remove1D)

lemma map_ok_same_board: "same_board g g' \<Longrightarrow> map_ok g' = map_ok g"
  by (simp add: same_board_def map_ok_def)

lemma flying_mono:
  assumes "flying g p" and "same_board g g'" and "set (enemies g') \<subseteq> set (enemies g)"
  shows "flying g' p"
proof -
  from assms(2) have "out_of_bounds g' p = out_of_bounds g p"
    "tile g' (py_int (pr_y p)) (py_int (pr_x p)) = tile g (py_int (pr_y p)) (py_int (pr_x p))"
    "hits_player (player g') p = hits_player (player g) p"
    by (simp_all add: same_board_def out_of_bounds_def tile_def hits_player_def)
  moreover from assms(3) have
    "find (hits_enemy p) (enemies g) = None \<Longrightarrow> find (hits_enemy p) (enemies g') = None"
    by (auto simp: find_None_iff)
  ultimately show ?thesis using assms(1) by (auto simp: flying_def split: if_splits)
qed

lemma update_projectiles_loop_total:
  "map_ok g \<Longrightarrow> \<exists>g'. update_projectiles_loop dt kept ps g = Inr g'"
proof (induction ps arbitrary: kept g)
  case Nil
  then show ?case by simp
next
  case (Cons p ps)
  from projectile_step_total[OF Cons.prems] obtain r g1 where
    step: "projectile_step dt p g = Inr (r, g1)" by blast
  from projectile_step_effect[OF step] Cons.prems have "map_ok g1"
    using map_ok_same_board by blast
  from Cons.IH[OF this] step show ?case
    by (cases r) simp_all
qed

lemma update_projectiles_loop_effect:
  assumes "update_projectiles_loop dt kept ps g = Inr g'" and "list_all (flying g) kept"
  shows "same_board g g' \<and> set (enemies g') \<subseteq> set (enemies g) \<and>
         list_all (flying g') (projectiles g') \<and>
         (\<exists>ys. projectiles g' = kept @ ys \<and> subseq ys (map (projectile_advance dt) ps))"
  using assms
proof (induction ps arbitrary: kept g)
  case Nil
  then have g': "g' = g\<lparr>projectiles := kept\<rparr>" by simp
  have "same_board g g'" "set (enemies g') \<subseteq> set (enemies g)"
    by (simp_all add: g')
  with Nil.prems(2) have "list_all (flying g') kept"
    by (auto simp: list_all_iff intro: flying_mono)
  then show ?case by (simp add: g')
next
  case (Cons p ps)
  from Cons.prems(1) obtain r g1 where
    step: "projectile_step dt p g = Inr (r, g1)"
    by (auto split: sum.splits)
  note eff = projectile_step_effect[OF step]
  from eff Cons.prems(2) have kept1: "list_all (flying g1) kept"
    by (auto simp: list_all_iff intro: flying_mono)
  show ?case
  proof (cases r)
    case None
    with Cons.prems(1) step have rest: "update_projectiles_loop dt kept ps g1 = Inr g'"
      by simp
    from Cons.IH[OF rest kept1] eff show ?thesis
      by (auto intro: same_board_trans)
  next
    case (Some q)
    with Cons.prems(1) step have rest: "update_projectiles_loop dt (kept @ [q]) ps g1 = Inr g'"
      by simp
    from eff Some have q: "q = projectile_advance dt p" "g1 = g" "flying g q"
      by auto
    with kept1 have "list_all (flying g1) (kept @ [q])" by simp
    from Cons.IH[OF rest this] obtain ys where
      ih: "same_board g1 g'" "set (enemies g') \<subseteq> set (enemies g1)"
          "list_all (flying g') (projectiles g')"
          "projectiles g' = (kept @ [q]) @ ys" "subseq ys (map (projectile_advance dt) ps)"
      by blast
    from ih q have "projectiles g' = kept @ (q # ys) \<and>
        subseq (q # ys) (map (projectile_advance dt) (p # ps))"
      by simp
    with ih q show ?thesis by blast
  qed
qed

section \<open>Projectiles leaving the grid or meeting a wall\<close>

lemma bk_update_bullets_inside:
  "list_all (\<lambda>b. \<not> bk_out_of_bounds g b) (bk_bullets (bk_update_bullets g))"
proof -
  have "list_all (bk_settled g) []" by simp
  then have "list_all (bk_settled (bk_update_bullets g)) (bk_bullets (bk_update_bullets g))"
    unfolding bk_update_bullets_def by (rule bk_update_bullets_loop_settled)
  then show ?thesis
    using bk_update_bullets_loop_frame[of "[]" "bk_bullets g" g]
    by (simp add: list_all_iff bk_settled_def bk_out_of_bounds_def bk_update_bullets_def)
qed

lemma bk_update_bullets_subseq:
  "subseq (bk_bullets (bk_update_bullets g))
     (filter (\<lambda>b. \<not> bk_out_of_bounds g b) (map bk_bullet_advance (bk_bullets g)))"
  using bk_update_bullets_loop_subseq[of g "[]" "bk_bullets g"]
  by (auto simp: bk_update_bullets_def)

lemma update_projectiles_total: "map_ok g \<Longrightarrow> \<exists>g'. update_projectiles dt g = Inr g'"
  unfolding update_projectiles_def by (rule update_projectiles_loop_total)

lemma update_projectiles_effect:
  assumes "update_projectiles dt g = Inr g'"
  shows "same_board g g' \<and> set (enemies g') \<subseteq> set (enemies g) \<and>
         list_all (flying g') (projectiles g') \<and>
         subseq (projectiles g') (map (projectile_advance dt) (projectiles g))"
  using update_projectiles_loop_effect[of dt "[]" "projectiles g" g g'] assms
  by (auto simp: update_projectiles_def)

lemma flying_inside:
  assumes "same_board g g'" and "flying g' q"
  shows "\<not> out_of_bounds g q \<and> tile g (py_int (pr_y q)) (py_int (pr_x q)) \<noteq> Inr WALL_CHAR"
  using assms by (simp add: flying_def same_board_def out_of_bounds_def tile_def)

text \<open>
  C9: a projectile whose advanced position is outside the grid is removed in that same
  update, in both variants, and in the richer variant so is one whose advanced position
  is on a wall tile, with nothing else changed. For the simple variant the step is
  stated with the loop's invariant (the bullets already visited are settled), which
  holds from the empty list on; after the update every bullet left is inside the grid
  and the bullets left are, in order, among the advanced bullets that are inside. For
  the richer variant the update returns on every well-formed map, and every projectile
  left is inside the grid and off the walls.
\<close>

theorem projectiles_removed_at_edge_and_wall:
  "(list_all (bk_settled g) visited \<and> bk_out_of_bounds g (bk_bullet_advance b) \<longrightarrow>
      bk_bullet_step visited b g = (visited, g)) \<and>
   list_all (\<lambda>b. \<not> bk_out_of_bounds g b) (bk_bullets (bk_update_bullets g)) \<and>
   subseq (bk_bullets (bk_update_bullets g))
     (filter (\<lambda>b. \<not> bk_out_of_bounds g b) (map bk_bullet_advance (bk_bullets g))) \<and>
   (out_of_bounds h (projectile_advance dt p) \<longrightarrow> projectile_step dt p h = Inr (None, h)) \<and>
   (\<not> out_of_bounds h (projectile_advance dt p) \<and>
    tile h (py_int (pr_y (projectile_advance dt p))) (py_int (pr_x (projectile_advance dt p)))
      = Inr WALL_CHAR \<longrightarrow>
      projectile_step dt p h = Inr (None, h)) \<and>
   (map_ok h \<longrightarrow> (\<exists>h'. update_projectiles dt h = Inr h')) \<and>
   (update_projectiles dt h = Inr h' \<longrightarrow>
      list_all (\<lambda>q. \<not> out_of_bounds h q \<and>
                    tile h (py_int (pr_y q)) (py_int (pr_x q)) \<noteq> Inr WALL_CHAR)
        (projectiles h') \<and>
      subseq (projectiles h') (map (projectile_advance dt) (projectiles h)))"
proof (intro conjI impI)
  assume "update_projectiles dt h = Inr h'"
  note eff = update_projectiles_effect[OF this]
  then show "list_all (\<lambda>q. \<not> out_of_bounds h q \<and>
                    tile h (py_int (pr_y q)) (py_int (pr_x q)) \<noteq> Inr WALL_CHAR)
        (projectiles h')"
    by (auto simp: list_all_iff dest: flying_inside)
  from eff show "subseq (projectiles h') (map (projectile_advance dt) (projectiles h))"
    by simp
qed (auto simp: bk_bullet_step_out bk_update_bullets_inside bk_update_bullets_subseq
      projectile_step_out projectile_step_wall update_projectiles_total)

lemma map_ok_arena: "map_ok arena"
  by (simp add: map_ok_def arena_simps list_all_iff)

theorem projectiles_removed_at_edge_and_wall_witness:
  "bk_update_bullets bk_edge_bullet = bk_Game_init 40 20 0 \<and>
   projectile_step 1 (Projectile 38.5 10 1 0 False) arena_edge = Inr (None, arena_edge) \<and>
   projectile_step (1 / 2) (Projectile 38.5 10 1 0 False) arena_edge = Inr (None, arena_edge) \<and>
   update_projectiles 1 arena_edge = Inr arena \<and>
   update_projectiles (1 / 2) arena_edge = Inr arena \<and>
   list_all (\<lambda>q. \<not> out_of_bounds arena_edge q) (projectiles arena)"
proof -
  let ?b = "bk_Entity 39 10 ARROW_RIGHT 1 0 False"
  let ?p = "Projectile 38.5 10 1 0 False"
  have "list_all (bk_settled bk_edge_bullet) [] \<and>
        bk_out_of_bounds bk_edge_bullet (bk_bullet_advance ?b)"
    by (simp add: bk_edge_bullet_def bk_Game_init_def bk_Entity_def bk_out_of_bounds_def
        bk_bullet_advance_def)
  with projectiles_removed_at_edge_and_wall[of bk_edge_bullet "[]" ?b]
  have "bk_bullet_step [] ?b bk_edge_bullet = ([], bk_edge_bullet)"
    by blast
  then have simple: "bk_update_bullets bk_edge_bullet = bk_Game_init 40 20 0"
    by (simp add: bk_update_bullets_def bk_edge_bullet_def bk_Game_init_def)
  have "out_of_bounds arena_edge (projectile_advance 1 ?p)"
    by (simp add: arena_edge_def arena_simps step_simps)
  with projectiles_removed_at_edge_and_wall[where h = arena_edge and dt = 1 and p = ?p]
  have out: "projectile_step 1 ?p arena_edge = Inr (None, arena_edge)"
    by blast
  have "\<not> out_of_bounds arena_edge (projectile_advance (1 / 2) ?p) \<and>
    tile arena_edge (py_int (pr_y (projectile_advance (1 / 2) ?p)))
      (py_int (pr_x (projectile_advance (1 / 2) ?p))) = Inr WALL_CHAR"
    by (simp add: arena_edge_def arena_simps step_simps)
  with projectiles_removed_at_edge_and_wall[where h = arena_edge and dt = "1 / 2" and p = ?p]
  have wall: "projectile_step (1 / 2) ?p arena_edge = Inr (None, arena_edge)"
    by blast
  from out have run1: "update_projectiles 1 arena_edge = Inr arena"
    by (simp add: update_projectiles_def arena_edge_def arena_def)
  from wall have run2: "update_projectiles (1 / 2) arena_edge = Inr arena"
    by (simp add: update_projectiles_def arena_edge_def arena_def)
  from projectiles_removed_at_edge_and_wall[where h = arena_edge and dt = 1 and h' = arena]
    run1
  have "list_all (\<lambda>q. \<not> out_of_bounds arena_edge q \<and>
                    tile arena_edge (py_int (pr_y q)) (py_int (pr_x q)) \<noteq> Inr WALL_CHAR)
        (projectiles arena)"
    by blast
  then have inside: "list_all (\<lambda>q. \<not> out_of_bounds arena_edge q) (projectiles arena)"
    by (simp add: list_all_iff)
  from simple out wall run1 run2 inside show ?thesis by blast
qed

section \<open>Collisions of projectiles with their opponents\<close>

lemma length_remove1_found_nat:
  assumes "find P xs = Some x"
  shows "length (remove1 x xs) + 1 = length xs"
  using length_remove1_found[OF assms] by linarith

lemma bk_update_bullets_settled:
  "list_all (bk_settled (bk_update_bullets g)) (bk_bullets (bk_update_bullets g))"
proof -
  have "list_all (bk_settled g) []" by simp
  then show ?thesis
    unfolding bk_update_bullets_def by (rule bk_update_bullets_loop_settled)
qed

lemma bk_update_bullets_count:
  "length (bk_enemies (bk_update_bullets g)) \<le> length (bk_enemies g) \<and>
   bk_score (bk_update_bullets g) =
     bk_score g + 10 * (int (length (bk_enemies g)) -
                        int (length (bk_enemies (bk_update_bullets g)))) \<and>
   int (length (bk_bullets (bk_update_bullets g))) =
     int (length (bk_bullets g))
     - int (length (filter (\<lambda>b. bk_out_of_bounds g (bk_bullet_advance b)) (bk_bullets g)))
     - (int (length (bk_enemies g)) - int (length (bk_enemies (bk_update_bullets g))))"
proof -
  have "list_all (bk_settled g) []" by simp
  from bk_update_bullets_loop_count[OF this, of "bk_bullets g"] show ?thesis
    by (simp add: bk_update_bullets_def)
qed

text \<open>
  C4, as the code has it: the collision test is made once per projectile and update, on
  the projectile's advanced position, after the bounds check (and the wall check of the
  richer variant). When a player projectile's advanced position is on the cell of one
  or more enemies, that projectile and exactly one enemy, the first of the list on that
  cell, are removed in that update and nothing else is; after the update no projectile
  left shares a cell with an opponent left, and (simple variant) the bullets removed are
  those that left the grid plus one per enemy removed. In the richer variant an enemy
  projectile whose advanced position is on the player's cell is removed and the player
  loses 10 health; the player is never removed.
\<close>

theorem collisions_remove_one_of_each:
  "(list_all (bk_settled g) visited \<and> \<not> bk_out_of_bounds g (bk_bullet_advance b) \<and>
    find (bk_same_cell (bk_bullet_advance b)) (bk_enemies g) = Some e \<longrightarrow>
      bk_bullet_step visited b g =
        (visited, g\<lparr>bk_enemies := remove1 e (bk_enemies g), bk_score := bk_score g + 10\<rparr>) \<and>
      length (remove1 e (bk_enemies g)) + 1 = length (bk_enemies g)) \<and>
   list_all (bk_settled (bk_update_bullets g)) (bk_bullets (bk_update_bullets g)) \<and>
   int (length (bk_bullets (bk_update_bullets g))) =
     int (length (bk_bullets g))
     - int (length (filter (\<lambda>b. bk_out_of_bounds g (bk_bullet_advance b)) (bk_bullets g)))
     - (int (length (bk_enemies g)) - int (length (bk_enemies (bk_update_bullets g)))) \<and>
   (\<not> out_of_bounds h (projectile_advance dt p) \<and>
    tile h (py_int (pr_y (projectile_advance dt p))) (py_int (pr_x (projectile_advance dt p)))
      = Inr c \<and> c \<noteq> WALL_CHAR \<and> \<not> pr_is_enemy p \<and>
    find (hits_enemy (projectile_advance dt p)) (enemies h) = Some en \<longrightarrow>
      projectile_step dt p h =
        Inr (None, h\<lparr>enemies := remove1 en (enemies h),
                      player := (player h)\<lparr>p_ammo := p_ammo (player h) + 2\<rparr>\<rparr>) \<and>
      length (remove1 en (enemies h)) + 1 = length (enemies h)) \<and>
   (\<not> out_of_bounds h (projectile_advance dt p) \<and>
    tile h (py_int (pr_y (projectile_advance dt p))) (py_int (pr_x (projectile_advance dt p)))
      = Inr c \<and> c \<noteq> WALL_CHAR \<and> pr_is_enemy p \<and>
    hits_player (player h) (projectile_advance dt p) \<longrightarrow>
      projectile_step dt p h =
        Inr (None, h\<lparr>player := (player h)\<lparr>p_health := p_health (player h) - 10\<rparr>,
                      game_over := game_over h \<or> p_health (player h) - 10 \<le> 0\<rparr>)) \<and>
   (update_projectiles dt h = Inr h' \<longrightarrow> list_all (flying h') (projectiles h'))"
proof (intro conjI impI)
  assume a: "list_all (bk_settled g) visited \<and> \<not> bk_out_of_bounds g (bk_bullet_advance b) \<and>
    find (bk_same_cell (bk_bullet_advance b)) (bk_enemies g) = Some e"
  then show "bk_bullet_step visited b g =
        (visited, g\<lparr>bk_enemies := remove1 e (bk_enemies g), bk_score := bk_score g + 10\<rparr>)"
    by (intro bk_bullet_step_hit) simp_all
  from a have "find (bk_same_cell (bk_bullet_advance b)) (bk_enemies g) = Some e"
    by simp
  then show "length (remove1 e (bk_enemies g)) + 1 = length (bk_enemies g)"
    by (rule length_remove1_found_nat)
next
  show "list_all (bk_settled (bk_update_bullets g)) (bk_bullets (bk_update_bullets g))"
    by (rule bk_update_bullets_settled)
next
  show "int (length (bk_bullets (bk_update_bullets g))) =
     int (length (bk_bullets g))
     - int (length (filter (\<lambda>b. bk_out_of_bounds g (bk_bullet_advance b)) (bk_bullets g)))
     - (int (length (bk_enemies g)) - int (length (bk_enemies (bk_update_bullets g))))"
    using bk_update_bullets_count by blast
next
  assume a: "\<not> out_of_bounds h (projectile_advance dt p) \<and>
    tile h (py_int (pr_y (projectile_advance dt p))) (py_int (pr_x (projectile_advance dt p)))
      = Inr c \<and> c \<noteq> WALL_CHAR \<and> \<not> pr_is_enemy p \<and>
    find (hits_enemy (projectile_advance dt p)) (enemies h) = Some en"
  then show "projectile_step dt p h =
        Inr (None, h\<lparr>enemies := remove1 en (enemies h),
                      player := (player h)\<lparr>p_ammo := p_ammo (player h) + 2\<rparr>\<rparr>)"
    by (intro projectile_step_enemy_hit[where c = c]) simp_all
  from a have "find (hits_enemy (projectile_advance dt p)) (enemies h) = Some en"
    by simp
  then show "length (remove1 en (enemies h)) + 1 = length (enemies h)"
    by (rule length_remove1_found_nat)
next
  assume "\<not> out_of_bounds h (projectile_advance dt p) \<and>
    tile h (py_int (pr_y (projectile_advance dt p))) (py_int (pr_x (projectile_advance dt p)))
      = Inr c \<and> c \<noteq> WALL_CHAR \<and> pr_is_enemy p \<and>
    hits_player (player h) (projectile_advance dt p)"
  then show "projectile_step dt p h =
        Inr (None, h\<lparr>player := (player h)\<lparr>p_health := p_health (player h) - 10\<rparr>,
                      game_over := game_over h \<or> p_health (player h) - 10 \<le> 0\<rparr>)"
    by (intro projectile_step_player_hit[where c = c]) simp_all
next
  assume "update_projectiles dt h = Inr h'"
  then show "list_all (flying h') (projectiles h')"
    by (simp add: update_projectiles_effect)
qed

theorem collisions_remove_one_of_each_witness:
  "bk_update_bullets bk_duel =
     (bk_Game_init 40 20 0)\<lparr>bk_enemies := [bk_Entity 25 10 ''E'' 0 0 True], bk_score := 10\<rparr> \<and>
   projectile_step (1 / 2) (Projectile 24 10 1 0 False) arena_shot =
     Inr (None, arena_shot\<lparr>enemies := [], player := (Player 20 10)\<lparr>p_ammo := 12\<rparr>\<rparr>) \<and>
   projectile_step (1 / 2) (Projectile 19 10 1 0 True) arena_one_hit =
     Inr (None, arena_one_hit\<lparr>player := (Player 20 10)\<lparr>p_health := 90\<rparr>\<rparr>) \<and>
   list_all (flying (arena\<lparr>enemies := [], player := (Player 20 10)\<lparr>p_ammo := 12\<rparr>\<rparr>))
     (projectiles (arena\<lparr>enemies := [], player := (Player 20 10)\<lparr>p_ammo := 12\<rparr>\<rparr>))"
proof -
  let ?b = "bk_Entity 24 10 ARROW_RIGHT 1 0 False"
  let ?e = "bk_Entity 25 10 ''E'' 0 0 True"
  let ?p = "Projectile 24 10 1 0 False"
  let ?q = "Projectile 19 10 1 0 True"
  have "list_all (bk_settled bk_duel) [] \<and>
        \<not> bk_out_of_bounds bk_duel (bk_bullet_advance ?b) \<and>
        find (bk_same_cell (bk_bullet_advance ?b)) (bk_enemies bk_duel) = Some ?e"
    by (simp add: bk_duel_def bk_Game_init_def bk_Entity_def bk_out_of_bounds_def
        bk_bullet_advance_def bk_same_cell_def)
  with collisions_remove_one_of_each[of bk_duel "[]" ?b ?e]
  have "bk_bullet_step [] ?b bk_duel =
        ([], bk_duel\<lparr>bk_enemies := remove1 ?e (bk_enemies bk_duel),
                     bk_score := bk_score bk_duel + 10\<rparr>)"
    by blast
  then have simple: "bk_update_bullets bk_duel =
     (bk_Game_init 40 20 0)\<lparr>bk_enemies := [?e], bk_score := 10\<rparr>"
    by (simp add: bk_update_bullets_def bk_duel_def bk_Game_init_def)
  have "\<not> out_of_bounds arena_shot (projectile_advance (1 / 2) ?p) \<and>
    tile arena_shot (py_int (pr_y (projectile_advance (1 / 2) ?p)))
      (py_int (pr_x (projectile_advance (1 / 2) ?p))) = Inr FLOOR_CHAR \<and>
    FLOOR_CHAR \<noteq> WALL_CHAR \<and> \<not> pr_is_enemy ?p \<and>
    find (hits_enemy (projectile_advance (1 / 2) ?p)) (enemies arena_shot)
      = Some (Enemy 25 10 0 2)"
    by (simp add: arena_simps step_simps)
  with collisions_remove_one_of_each[where h = arena_shot and dt = "1 / 2" and p = ?p
      and c = FLOOR_CHAR and en = "Enemy 25 10 0 2"]
  have "projectile_step (1 / 2) ?p arena_shot =
        Inr (None, arena_shot\<lparr>enemies := remove1 (Enemy 25 10 0 2) (enemies arena_shot),
                      player := (player arena_shot)\<lparr>p_ammo := p_ammo (player arena_shot) + 2\<rparr>\<rparr>)"
    by blast
  then have kill: "projectile_step (1 / 2) ?p arena_shot =
     Inr (None, arena_shot\<lparr>enemies := [], player := (Player 20 10)\<lparr>p_ammo := 12\<rparr>\<rparr>)"
    by (simp add: arena_shot_def arena_def Player_def)
  have "\<not> out_of_bounds arena_one_hit (projectile_advance (1 / 2) ?q) \<and>
    tile arena_one_hit (py_int (pr_y (projectile_advance (1 / 2) ?q)))
      (py_int (pr_x (projectile_advance (1 / 2) ?q))) = Inr FLOOR_CHAR \<and>
    FLOOR_CHAR \<noteq> WALL_CHAR \<and> pr_is_enemy ?q \<and>
    hits_player (player arena_one_hit) (projectile_advance (1 / 2) ?q)"
    by (simp add: arena_simps step_simps)
  with collisions_remove_one_of_each[where h = arena_one_hit and dt = "1 / 2" and p = ?q
      and c = FLOOR_CHAR]
  have "projectile_step (1 / 2) ?q arena_one_hit =
        Inr (None, arena_one_hit\<lparr>player := (player arena_one_hit)
                        \<lparr>p_health := p_health (player arena_one_hit) - 10\<rparr>,
                      game_over := game_over arena_one_hit \<or>
                                   p_health (player arena_one_hit) - 10 \<le> 0\<rparr>)"
    by blast
  then have hit: "projectile_step (1 / 2) ?q arena_one_hit =
     Inr (None, arena_one_hit\<lparr>player := (Player 20 10)\<lparr>p_health := 90\<rparr>\<rparr>)"
    by (simp add: arena_one_hit_def arena_def Player_def)
  from kill have "update_projectiles (1 / 2) arena_shot =
     Inr (arena\<lparr>enemies := [], player := (Player 20 10)\<lparr>p_ammo := 12\<rparr>\<rparr>)"
    by (simp add: update_projectiles_def arena_shot_def arena_def)
  with collisions_remove_one_of_each[where h = arena_shot and dt = "1 / 2" and
      h' = "arena\<lparr>enemies := [], player := (Player 20 10)\<lparr>p_ammo := 12\<rparr>\<rparr>"]
  have left: "list_all (flying (arena\<lparr>enemies := [], player := (Player 20 10)\<lparr>p_ammo := 12\<rparr>\<rparr>))
     (projectiles (arena\<lparr>enemies := [], player := (Player 20 10)\<lparr>p_ammo := 12\<rparr>\<rparr>))"
    by blast
  from simple kill hit left show ?thesis by blast
qed

text \<open>
  The claim as stated fails twice. In the simple variant an enemy steps onto a bullet's
  cell in move_enemies, the bullet then advances off that cell before it is tested, and
  both survive the update having swapped cells. In the richer variant an enemy projectile
  that reaches the player's cell is removed but the player stays, with 90 health and the
  game going on.
\<close>

theorem collisions_tunnel_and_player_stays:
  "bk_enemies (bk_move_enemies bk_crossing) = [bk_Entity 25 10 ''E'' 0 0 True] \<and>
   bk_bullets (bk_move_enemies bk_crossing) = [bk_Entity 25 10 ARROW_LEFT (- 1) 0 False] \<and>
   bk_enemies (bk_update_bullets (bk_move_enemies bk_crossing)) =
     [bk_Entity 25 10 ''E'' 0 0 True] \<and>
   bk_bullets (bk_update_bullets (bk_move_enemies bk_crossing)) =
     [bk_Entity 24 10 ARROW_LEFT (- 1) 0 False] \<and>
   update_projectiles (1 / 2) arena_one_hit =
     Inr (arena\<lparr>player := (Player 20 10)\<lparr>p_health := 90\<rparr>\<rparr>) \<and>
   game_over (arena\<lparr>player := (Player 20 10)\<lparr>p_health := 90\<rparr>\<rparr>) = False"
  by (simp add: bk_crossing_def bk_Game_init_def bk_move_enemies_def bk_enemy_advance_eq
      bk_update_bullets_def bk_bullet_step_def bk_bullet_advance_def bk_out_of_bounds_def
      bk_same_cell_def
      bk_Entity_def arena_simps step_simps)

section \<open>The glyph of a projectile\<close>

text \<open>
  C6, as the code has it: in the simple variant the glyph of a bullet is a function of
  the direction it is shot in, one of four different arrows for the four directions of
  the keys (the right arrow for any direction that is none of them). In the richer
  variant the glyph does not depend on the direction: it is \<open>+\<close> for an enemy's
  projectile and \<open>*\<close> for the player's, whatever the direction.
\<close>

theorem projectile_glyphs:
  "bk_bullets (bk_shoot (dx, dy) g) =
     bk_bullets g @
     [bk_Entity (bk_x (bk_player g) + dx) (bk_y (bk_player g) + dy)
        (if dx = 1 then ARROW_RIGHT else if dx = - 1 then ARROW_LEFT
         else if dy = 1 then ARROW_DOWN else if dy = - 1 then ARROW_UP else ARROW_RIGHT)
        dx dy False] \<and>
   distinct [ARROW_RIGHT, ARROW_LEFT, ARROW_DOWN, ARROW_UP] \<and>
   pr_char (Projectile x y rx ry is_enemy) =
     (if is_enemy then ENEMY_ARROW_CHAR else ARROW_CHAR) \<and>
   projectiles (shoot x y rx ry True h) = projectiles h @ [Projectile x y rx ry True] \<and>
   ARROW_CHAR \<noteq> ENEMY_ARROW_CHAR"
  by (simp add: bk_shoot_def bk_Entity_def Let_def ARROW_RIGHT_def ARROW_LEFT_def
      ARROW_DOWN_def ARROW_UP_def Projectile_def shoot_def ARROW_CHAR_def
      ENEMY_ARROW_CHAR_def)

text \<open>
  The claim as stated fails in the richer variant: player shots to the right and
  downward carry the same glyph, and a shot to the right carries another glyph when
  an enemy fires it.
\<close>

theorem projectile_glyphs_ignore_direction:
  "projectiles (shoot 20 10 1 0 False arena) = [Projectile 20 10 1 0 False] \<and>
   projectiles (shoot 20 10 0 1 False arena) = [Projectile 20 10 0 1 False] \<and>
   projectiles (shoot 20 10 1 0 True arena) = [Projectile 20 10 1 0 True] \<and>
   pr_char (Projectile 20 10 1 0 False) = ''*'' \<and>
   pr_char (Projectile 20 10 0 1 False) = ''*'' \<and>
   pr_char (Projectile 20 10 1 0 True) = ''+''"
  by (simp add: shoot_def arena_def Player_def Projectile_def Let_def ARROW_CHAR_def
      ENEMY_ARROW_CHAR_def)

section \<open>Drawing order\<close>

lemma py_index_less: "py_index n i = Some k \<Longrightarrow> k < n"
  by (auto simp: py_index_def split: if_splits)

lemma grid_set_get:
  assumes "grid_set grid y x v = Inr grid'"
  shows "grid_get grid' y x = Inr v"
proof -
  from assms obtain k j where
    k: "py_index (length grid) y = Some k" and
    j: "py_index (length (grid ! k)) x = Some j" and
    g': "grid' = grid[k := (grid ! k)[j := v]]"
    by (auto simp: grid_set_def py_get_def py_set_def split: option.splits)
  from k j have "k < length grid" "j < length (grid ! k)"
    by (auto dest: py_index_less)
  with k j show ?thesis
    by (simp add: g' grid_get_def py_get_def)
qed

lemma bk_draw_grid_player:
  assumes "bk_draw_grid g = Inr grid"
  shows "grid_get grid (bk_y (bk_player g)) (bk_x (bk_player g)) = Inr (bk_char (bk_player g))"
proof -
  from assms obtain grid2 where "bk_put (bk_player g) grid2 = Inr grid"
    by (auto simp: bk_draw_grid_def Let_def split: sum.splits)
  then show ?thesis
    unfolding bk_put_def by (rule grid_set_get)
qed

lemma fold_paint:
  assumes paint: "\<And>a scr. f a scr = scr(cell a := Some (ink a))"
  shows "fold f as scr k =
         (if filter (\<lambda>a. cell a = k) as = [] then scr k
          else Some (ink (last (filter (\<lambda>a. cell a = k) as))))"
proof (induction as arbitrary: scr)
  case Nil
  then show ?case by simp
next
  case (Cons a as)
  let ?on = "\<lambda>a. cell a = k"
  have "fold f (a # as) scr k = fold f as (f a scr) k"
    by simp
  also have "\<dots> = (if filter ?on as = [] then (f a scr) k
                    else Some (ink (last (filter ?on as))))"
    by (rule Cons.IH)
  also have "\<dots> = (if filter ?on (a # as) = [] then scr k
                    else Some (ink (last (filter ?on (a # as)))))"
    by (simp add: paint)
  finally show ?case .
qed

lemma addstr_other_row: "y' \<noteq> y \<Longrightarrow> addstr y x s colour scr (y', x') = scr (y', x')"
  by (induction s arbitrary: x scr) (simp_all add: addch_def)

lemma render_player_cell:
  assumes "render g = Inr scr" and "p_y (player g) \<noteq> height g"
  shows "scr (p_y (player g), p_x (player g)) =
         Some (let ps = filter (\<lambda>q. on_player g (py_int (pr_y q), py_int (pr_x q)))
                          (projectiles g);
                   es = filter (\<lambda>e. on_player g (py_int (e_y e), py_int (e_x e))) (enemies g)
               in if ps \<noteq> []
                  then (pr_char (last ps),
                        if pr_is_enemy (last ps) then COLOR_ENEMY_PROJECTILE
                        else COLOR_PROJECTILE)
                  else if es \<noteq> [] then (e_char (last es), COLOR_ENEMY)
                  else (p_char (player g), COLOR_PLAYER))"
proof -
  let ?k = "(p_y (player g), p_x (player g))"
  from assms(1) obtain scr1 where
    scr: "scr = addstr (height g) 0 (status_line g) COLOR_STATUS
            (fold render_projectile (projectiles g)
              (fold render_enemy (enemies g)
                (addch (p_y (player g)) (p_x (player g)) (p_char (player g))
                   COLOR_PLAYER scr1)))"
    by (auto simp: render_def Let_def split: sum.splits)
  have e: "\<And>e s. render_enemy e s =
      s((py_int (e_y e), py_int (e_x e)) := Some (e_char e, COLOR_ENEMY))"
    by (simp add: render_enemy_def addch_def)
  have p: "\<And>q s. render_projectile q s =
      s((py_int (pr_y q), py_int (pr_x q)) :=
         Some (pr_char q, if pr_is_enemy q then COLOR_ENEMY_PROJECTILE else COLOR_PROJECTILE))"
    by (simp add: render_projectile_def addch_def)
  show ?thesis
    unfolding scr using assms(2)
    by (simp add: addstr_other_row fold_paint[where f = render_projectile, OF p]
        fold_paint[where f = render_enemy, OF e] addch_def on_player_def Let_def)
qed

lemma fold_err_total:
  assumes "\<And>a s. a \<in> set as \<Longrightarrow> \<exists>s'. f a s = Inr s'"
  shows "\<exists>s'. fold_err f as s = Inr s'"
  using assms
proof (induction as arbitrary: s)
  case Nil
  then show ?case by simp
next
  case (Cons a as)
  from Cons.prems[of a s] obtain s1 where "f a s = Inr s1" by auto
  moreover from Cons.IH[of s1] Cons.prems obtain s2 where "fold_err f as s1 = Inr s2"
    by auto
  ultimately show ?case by simp
qed

lemma render_map_total:
  assumes "map_ok g"
  shows "\<exists>scr'. render_map g scr = Inr scr'"
  unfolding render_map_def
proof (rule fold_err_total)
  fix y s
  assume y: "y \<in> set [0..height g - 1]"
  show "\<exists>s'. fold_err (render_tile g y) [0..width g - 1] s = Inr s'"
  proof (rule fold_err_total)
    fix x t
    assume "x \<in> set [0..width g - 1]"
    with y assms have "tile g y x = Inr (game_map g ! nat y ! nat x)"
      by (intro tile_inside) simp_all
    then show "\<exists>t'. render_tile g y x t = Inr t'"
      by (simp add: render_tile_def)
  qed
qed

lemma render_total: "map_ok g \<Longrightarrow> \<exists>scr. render g = Inr scr"
  using render_map_total[of g "\<lambda>cell. None"]
  by (auto simp: render_def Let_def)

text \<open>
  C2, as the code has it: \<open>draw\<close> of the simple variant writes the bullets, then the
  enemies, then the player, so the cell of the player shows the player's glyph whatever
  else stands there. \<open>render\<close> of the richer variant writes the map, then the player,
  then the enemies, then the projectiles: the cell of the player shows the glyph of the
  last projectile on it if there is one, else of the last enemy on it if there is one,
  and the player's glyph only when the player is alone on the cell. \<open>render\<close> returns
  on every well-formed map.
\<close>

theorem player_glyph_precedence:
  "(bk_draw_grid g = Inr grid \<longrightarrow>
      grid_get grid (bk_y (bk_player g)) (bk_x (bk_player g)) = Inr (bk_char (bk_player g))) \<and>
   (map_ok h \<longrightarrow> (\<exists>scr. render h = Inr scr)) \<and>
   (render h = Inr scr \<and> p_y (player h) \<noteq> height h \<longrightarrow>
      scr (p_y (player h), p_x (player h)) =
        Some (let ps = filter (\<lambda>q. on_player h (py_int (pr_y q), py_int (pr_x q)))
                         (projectiles h);
                  es = filter (\<lambda>e. on_player h (py_int (e_y e), py_int (e_x e))) (enemies h)
              in if ps \<noteq> []
                 then (pr_char (last ps),
                       if pr_is_enemy (last ps) then COLOR_ENEMY_PROJECTILE
                       else COLOR_PROJECTILE)
                 else if es \<noteq> [] then (e_char (last es), COLOR_ENEMY)
                 else (p_char (player h), COLOR_PLAYER)))"
  using bk_draw_grid_player render_total render_player_cell by blast

theorem player_glyph_precedence_witness:
  "bk_draw_grid bk_overlap =
     Inr ((replicate 20 (replicate 40 '' ''))[10 := (replicate 40 '' '')[20 := ''@'']]) \<and>
   grid_get ((replicate 20 (replicate 40 '' ''))[10 := (replicate 40 '' '')[20 := ''@'']])
     10 20 = Inr ''@'' \<and>
   (\<exists>scr. render arena_shot = Inr scr \<and> scr (10, 20) = Some (''@'', COLOR_PLAYER))"
proof -
  have draw: "bk_draw_grid bk_overlap =
     Inr ((replicate 20 (replicate 40 '' ''))[10 := (replicate 40 '' '')[20 := ''@'']])"
    by (simp add: bk_draw_grid_def bk_overlap_def bk_Game_init_def bk_Entity_def bk_put_def
        grid_set_def py_get_def py_set_def py_index_def)
  with player_glyph_precedence[of bk_overlap
      "(replicate 20 (replicate 40 '' ''))[10 := (replicate 40 '' '')[20 := ''@'']]"]
  have "grid_get ((replicate 20 (replicate 40 '' ''))[10 := (replicate 40 '' '')[20 := ''@'']])
     (bk_y (bk_player bk_overlap)) (bk_x (bk_player bk_overlap)) =
       Inr (bk_char (bk_player bk_overlap))"
    by blast
  then have cell: "grid_get
     ((replicate 20 (replicate 40 '' ''))[10 := (replicate 40 '' '')[20 := ''@'']])
     10 20 = Inr ''@''"
    by (simp add: bk_overlap_def bk_Game_init_def bk_Entity_def)
  have "map_ok arena_shot"
    by (simp add: map_ok_def arena_simps list_all_iff)
  with player_glyph_precedence[where h = arena_shot] obtain scr where
    scr: "render arena_shot = Inr scr" by blast
  have "p_y (player arena_shot) \<noteq> height arena_shot"
    by (simp add: arena_simps)
  with player_glyph_precedence[where h = arena_shot and scr = scr] scr
  have "scr (p_y (player arena_shot), p_x (player arena_shot)) =
        Some (let ps = filter (\<lambda>q. on_player arena_shot (py_int (pr_y q), py_int (pr_x q)))
                         (projectiles arena_shot);
                  es = filter (\<lambda>e. on_player arena_shot (py_int (e_y e), py_int (e_x e)))
                         (enemies arena_shot)
              in if ps \<noteq> []
                 then (pr_char (last ps),
                       if pr_is_enemy (last ps) then COLOR_ENEMY_PROJECTILE
                       else COLOR_PROJECTILE)
                 else if es \<noteq> [] then (e_char (last es), COLOR_ENEMY)
                 else (p_char (player arena_shot), COLOR_PLAYER))"
    by blast
  then have "scr (10, 20) = Some (''@'', COLOR_PLAYER)"
    by (simp add: arena_simps on_player_def py_int_def PLAYER_CHAR_def)
  with scr draw cell show ?thesis by blast
qed

lemma map_ok_arena_overlap: "map_ok arena_overlap"
  by (simp add: map_ok_def arena_overlap_def arena_simps list_all_iff)

text \<open>
  The claim as stated fails in the richer variant: with an enemy on the player's cell
  (10th row, 20th column) \<open>render\<close> leaves the enemy's glyph there.
\<close>

theorem player_glyph_hidden_by_enemy:
  "p_y (player arena_overlap) = 10 \<and> p_x (player arena_overlap) = 20 \<and>
   map_sum id (\<lambda>scr. scr (10, 20)) (render arena_overlap) = Inr (Some (''E'', COLOR_ENEMY))"
proof -
  from render_total[OF map_ok_arena_overlap] obtain scr where
    scr: "render arena_overlap = Inr scr" by blast
  have "p_y (player arena_overlap) \<noteq> height arena_overlap"
    by (simp add: arena_overlap_def arena_simps)
  from render_player_cell[OF scr this] have "scr (10, 20) = Some (''E'', COLOR_ENEMY)"
    by (simp add: arena_overlap_def arena_simps on_player_def py_int_def ENEMY_CHAR_def)
  with scr show ?thesis
    by (simp add: arena_overlap_def arena_simps)
qed

section \<open>generate_map and the constructor of the game\<close>

lemma grid_ok_row: "grid_ok H W m \<Longrightarrow> y < H \<Longrightarrow> length (m ! y) = W"
  by (simp add: grid_ok_def list_all_length)

lemma grid_set_inside:
  assumes "grid_ok H W m" and "0 \<le> y" and "y < int H" and "0 \<le> x" and "x < int W"
  shows "grid_set m y x c = Inr (m[nat y := (m ! nat y)[nat x := c]])"
proof -
  from assms have "nat y < H" by simp
  with assms(1) have "length (m ! nat y) = W" by (rule grid_ok_row)
  with assms show ?thesis
    by (simp add: grid_set_def py_get_def py_set_def py_index_def grid_ok_def)
qed

lemma painted_one:
  assumes "grid_ok H W m" and "y < H" and "x < W"
  shows "painted H W c (\<lambda>y' x'. y' = y \<and> x' = x) m (m[y := (m ! y)[x := c]])"
proof -
  have ok: "grid_ok H W (m[y := (m ! y)[x := c]])"
    using assms
    by (auto simp: grid_ok_def list_all_length nth_list_update)
  have "\<forall>y'<H. \<forall>x'<W. (m[y := (m ! y)[x := c]]) ! y' ! x' =
          (if y' = y \<and> x' = x then c else m ! y' ! x')"
    using assms grid_ok_row[OF assms(1)]
    by (auto simp: nth_list_update grid_ok_def)
  with ok show ?thesis by (simp add: painted_def)
qed

lemma painted_trans:
  assumes "painted H W c P m m1" and "painted H W c Q m1 m2"
  shows "painted H W c (\<lambda>y x. P y x \<or> Q y x) m m2"
  using assms by (auto simp: painted_def)

lemma painted_cong:
  assumes "painted H W c P m m'" and "\<And>y x. y < H \<Longrightarrow> x < W \<Longrightarrow> P y x = Q y x"
  shows "painted H W c Q m m'"
  using assms by (auto simp: painted_def)

lemma painted_grid_ok: "painted H W c P m m' \<Longrightarrow> grid_ok H W m'"
  by (simp add: painted_def)

lemma grid_set_paints:
  assumes "grid_ok H W m" and "0 \<le> y" and "y < int H" and "0 \<le> x" and "x < int W"
  shows "\<exists>m'. grid_set m y x c = Inr m' \<and>
              painted H W c (\<lambda>y' x'. y' = nat y \<and> x' = nat x) m m'"
proof -
  from assms have "nat y < H" "nat x < W" by simp_all
  with assms(1) have "painted H W c (\<lambda>y' x'. y' = nat y \<and> x' = nat x) m
      (m[nat y := (m ! nat y)[nat x := c]])"
    by (intro painted_one)
  with grid_set_inside[OF assms] show ?thesis by simp
qed

lemma fold_err_paints:
  assumes body: "\<And>a m. a \<in> set as \<Longrightarrow> grid_ok H W m \<Longrightarrow>
                   \<exists>m'. f a m = Inr m' \<and> painted H W c (P a) m m'"
    and ok: "grid_ok H W m"
  shows "\<exists>m'. fold_err f as m = Inr m' \<and>
              painted H W c (\<lambda>y x. \<exists>a\<in>set as. P a y x) m m'"
  using assms
proof (induction as arbitrary: m)
  case Nil
  then show ?case by (simp add: painted_def)
next
  case (Cons a as)
  from Cons.prems(1)[of a m] Cons.prems(2) obtain m1 where
    m1: "f a m = Inr m1" "painted H W c (P a) m m1"
    by auto
  then have ok1: "grid_ok H W m1" by (simp add: painted_def)
  from Cons.IH[OF _ ok1] Cons.prems(1) obtain m2 where
    m2: "fold_err f as m1 = Inr m2" "painted H W c (\<lambda>y x. \<exists>a\<in>set as. P a y x) m1 m2"
    by auto
  from painted_trans[OF m1(2) m2(2)]
  have "painted H W c (\<lambda>y x. \<exists>b\<in>set (a # as). P b y x) m m2"
    by (rule painted_cong) auto
  with m1 m2 show ?case by auto
qed

lemma grid_ok_replicate: "grid_ok H W (replicate H (replicate W c))"
  by (simp add: grid_ok_def list_all_iff)

lemma generate_map_cells:
  assumes w: "0 < w" and h: "0 < h" and draws: "draws_ok w h ints"
  shows "\<exists>m. generate_map w h ints = Inr m \<and> grid_ok (nat h) (nat w) m \<and>
             (\<forall>y<nat h. \<forall>x<nat w.
                m ! y ! x =
                  (if y = 0 \<or> y = nat h - 1 \<or> x = 0 \<or> x = nat w - 1 \<or>
                      (\<exists>k<nat (w * h div WALL_DENSITY).
                         y = nat (ints (2 * k + 1)) \<and> x = nat (ints (2 * k)))
                   then WALL_CHAR else FLOOR_CHAR))"
proof -
  let ?H = "nat h" and ?W = "nat w"
  let ?m0 = "replicate ?H (replicate ?W FLOOR_CHAR)"
  let ?f1 = "\<lambda>x m. case grid_set m 0 x WALL_CHAR of
                       Inl err \<Rightarrow> Inl err
                     | Inr m' \<Rightarrow> grid_set m' (h - 1) x WALL_CHAR"
  let ?f2 = "\<lambda>y m. case grid_set m y 0 WALL_CHAR of
                       Inl err \<Rightarrow> Inl err
                     | Inr m' \<Rightarrow> grid_set m' y (w - 1) WALL_CHAR"
  let ?f3 = "\<lambda>k m. grid_set m (ints (2 * k + 1)) (ints (2 * k)) WALL_CHAR"
  let ?P1 = "\<lambda>a y x. (y = 0 \<or> y = nat (h - 1)) \<and> x = nat a"
  let ?P2 = "\<lambda>a y x. y = nat a \<and> (x = 0 \<or> x = nat (w - 1))"
  let ?P3 = "\<lambda>k y x. y = nat (ints (2 * k + 1)) \<and> x = nat (ints (2 * k))"
  have ok0: "grid_ok ?H ?W ?m0" by (rule grid_ok_replicate)
  have b1: "\<exists>m'. ?f1 a m = Inr m' \<and> painted ?H ?W WALL_CHAR (?P1 a) m m'"
    if "a \<in> set [0..w - 1]" and ok: "grid_ok ?H ?W m" for a m
  proof -
    from that w h have r: "0 \<le> a" "a < int ?W" "(0::int) < int ?H" "0 \<le> h - 1"
      "h - 1 < int ?H"
      by auto
    from grid_set_paints[OF ok _ r(3) r(1) r(2), of WALL_CHAR] obtain m1 where
      m1: "grid_set m 0 a WALL_CHAR = Inr m1"
          "painted ?H ?W WALL_CHAR (\<lambda>y' x'. y' = nat 0 \<and> x' = nat a) m m1"
      by auto
    from grid_set_paints[OF painted_grid_ok[OF m1(2)] r(4) r(5) r(1) r(2), of WALL_CHAR]
    obtain m2 where
      m2: "grid_set m1 (h - 1) a WALL_CHAR = Inr m2"
          "painted ?H ?W WALL_CHAR (\<lambda>y' x'. y' = nat (h - 1) \<and> x' = nat a) m1 m2"
      by auto
    from painted_trans[OF m1(2) m2(2)] have "painted ?H ?W WALL_CHAR (?P1 a) m m2"
      by (rule painted_cong) auto
    with m1 m2 show ?thesis by simp
  qed
  have b2: "\<exists>m'. ?f2 a m = Inr m' \<and> painted ?H ?W WALL_CHAR (?P2 a) m m'"
    if "a \<in> set [0..h - 1]" and ok: "grid_ok ?H ?W m" for a m
  proof -
    from that w h have r: "0 \<le> a" "a < int ?H" "(0::int) < int ?W" "0 \<le> w - 1"
      "w - 1 < int ?W"
      by auto
    from grid_set_paints[OF ok r(1) r(2) _ r(3), of WALL_CHAR] obtain m1 where
      m1: "grid_set m a 0 WALL_CHAR = Inr m1"
          "painted ?H ?W WALL_CHAR (\<lambda>y' x'. y' = nat a \<and> x' = nat 0) m m1"
      by auto
    from grid_set_paints[OF painted_grid_ok[OF m1(2)] r(1) r(2) r(4) r(5), of WALL_CHAR]
    obtain m2 where
      m2: "grid_set m1 a (w - 1) WALL_CHAR = Inr m2"
          "painted ?H ?W WALL_CHAR (\<lambda>y' x'. y' = nat a \<and> x' = nat (w - 1)) m1 m2"
      by auto
    from painted_trans[OF m1(2) m2(2)] have "painted ?H ?W WALL_CHAR (?P2 a) m m2"
      by (rule painted_cong) auto
    with m1 m2 show ?thesis by simp
  qed
  have b3: "\<exists>m'. ?f3 k m = Inr m' \<and> painted ?H ?W WALL_CHAR (?P3 k) m m'"
    if ok: "grid_ok ?H ?W m" for k m
  proof -
    from draws have d: "1 \<le> ints (2 * k)" "ints (2 * k) \<le> w - 2"
      "1 \<le> ints (2 * k + 1)" "ints (2 * k + 1) \<le> h - 2"
      unfolding draws_ok_def by blast+
    then have "0 \<le> ints (2 * k + 1)" "ints (2 * k + 1) < int ?H"
      "0 \<le> ints (2 * k)" "ints (2 * k) < int ?W"
      using w h by simp_all
    from grid_set_paints[OF ok this] show ?thesis .
  qed
  from fold_err_paints[of "[0..w - 1]" ?H ?W ?f1 WALL_CHAR ?P1, OF b1 ok0] obtain m1 where
    m1: "fold_err ?f1 [0..w - 1] ?m0 = Inr m1"
        "painted ?H ?W WALL_CHAR (\<lambda>y x. \<exists>a\<in>set [0..w - 1]. ?P1 a y x) ?m0 m1"
    by blast
  from fold_err_paints[of "[0..h - 1]" ?H ?W ?f2 WALL_CHAR ?P2, OF b2 painted_grid_ok[OF m1(2)]]
  obtain m2 where
    m2: "fold_err ?f2 [0..h - 1] m1 = Inr m2"
        "painted ?H ?W WALL_CHAR (\<lambda>y x. \<exists>a\<in>set [0..h - 1]. ?P2 a y x) m1 m2"
    by blast
  from fold_err_paints[of "[0..<nat (w * h div WALL_DENSITY)]" ?H ?W ?f3 WALL_CHAR ?P3,
      OF b3 painted_grid_ok[OF m2(2)]]
  obtain m3 where
    m3: "fold_err ?f3 [0..<nat (w * h div WALL_DENSITY)] m2 = Inr m3"
        "painted ?H ?W WALL_CHAR
           (\<lambda>y x. \<exists>k\<in>set [0..<nat (w * h div WALL_DENSITY)]. ?P3 k y x) m2 m3"
    by blast
  have gen: "generate_map w h ints = Inr m3"
    by (simp only: generate_map_def Let_def m1 m2 m3 sum.case)
  have cells: "m3 ! y ! x =
      (if y = 0 \<or> y = ?H - 1 \<or> x = 0 \<or> x = ?W - 1 \<or>
          (\<exists>k<nat (w * h div WALL_DENSITY). y = nat (ints (2 * k + 1)) \<and> x = nat (ints (2 * k)))
       then WALL_CHAR else FLOOR_CHAR)"
    if yx: "y < ?H" "x < ?W" for y x
  proof -
    have e1: "(\<exists>a\<in>set [0..w - 1]. ?P1 a y x) \<longleftrightarrow> y = 0 \<or> y = ?H - 1"
      using yx w h by (auto simp: nat_diff_distrib intro: bexI[of _ "int x"])
    have e2: "(\<exists>a\<in>set [0..h - 1]. ?P2 a y x) \<longleftrightarrow> x = 0 \<or> x = ?W - 1"
      using yx w h by (auto simp: nat_diff_distrib intro: bexI[of _ "int y"])
    have e3: "(\<exists>k\<in>set [0..<nat (w * h div WALL_DENSITY)]. ?P3 k y x) \<longleftrightarrow>
        (\<exists>k<nat (w * h div WALL_DENSITY). y = nat (ints (2 * k + 1)) \<and> x = nat (ints (2 * k)))"
      by (simp add: Bex_def)
    have c0: "?m0 ! y ! x = FLOOR_CHAR"
      using yx by simp
    from m1(2) yx have c1: "m1 ! y ! x = (if y = 0 \<or> y = ?H - 1 then WALL_CHAR else ?m0 ! y ! x)"
      unfolding painted_def e1[symmetric] by blast
    from m2(2) yx have c2: "m2 ! y ! x = (if x = 0 \<or> x = ?W - 1 then WALL_CHAR else m1 ! y ! x)"
      unfolding painted_def e2[symmetric] by blast
    from m3(2) yx have c3: "m3 ! y ! x =
        (if (\<exists>k<nat (w * h div WALL_DENSITY). y = nat (ints (2 * k + 1)) \<and> x = nat (ints (2 * k)))
         then WALL_CHAR else m2 ! y ! x)"
      unfolding painted_def e3[symmetric] by blast
    define A where "A \<longleftrightarrow> y = 0 \<or> y = ?H - 1"
    define B where "B \<longleftrightarrow> x = 0 \<or> x = ?W - 1"
    define C where "C \<longleftrightarrow>
      (\<exists>k<nat (w * h div WALL_DENSITY). y = nat (ints (2 * k + 1)) \<and> x = nat (ints (2 * k)))"
    have "m3 ! y ! x = (if C then WALL_CHAR else if B then WALL_CHAR
                        else if A then WALL_CHAR else FLOOR_CHAR)"
      unfolding c3 c2 c1 c0 A_def B_def C_def ..
    also have "\<dots> = (if A \<or> B \<or> C then WALL_CHAR else FLOOR_CHAR)"
      by simp
    finally show ?thesis
      unfolding A_def B_def C_def by (simp only: disj_assoc)
  qed
  from gen painted_grid_ok[OF m3(2)] cells show ?thesis by blast
qed

lemma arena_map_cells:
  "y < 20 \<Longrightarrow> x < 40 \<Longrightarrow>
   arena_map ! y ! x =
     (if y = 0 \<or> y = 19 \<or> x = 0 \<or> x = 39 \<or> (y = 1 \<and> x = 1)
      then WALL_CHAR else FLOOR_CHAR)"
  by (auto simp: arena_map_def nth_Cons' nth_append)

lemma grid_ok_arena_map: "grid_ok 20 40 arena_map"
  by (simp add: grid_ok_def arena_map_def list_all_iff)

lemma grid_ok_eqI:
  assumes "grid_ok H W m" and "grid_ok H W m'"
    and "\<And>y x. y < H \<Longrightarrow> x < W \<Longrightarrow> m ! y ! x = m' ! y ! x"
  shows "m = m'"
proof (rule nth_equalityI)
  from assms show "length m = length m'" by (simp add: grid_ok_def)
next
  fix y assume "y < length m"
  with assms(1) have y: "y < H" by (simp add: grid_ok_def)
  show "m ! y = m' ! y"
  proof (rule nth_equalityI)
    from y assms show "length (m ! y) = length (m' ! y)"
      by (simp add: grid_ok_row)
  next
    fix x assume "x < length (m ! y)"
    with y assms(1) have "x < W" by (simp add: grid_ok_row)
    with y assms(3) show "m ! y ! x = m' ! y ! x" by simp
  qed
qed

lemma generate_map_arena:
  "generate_map MAP_WIDTH MAP_HEIGHT (\<lambda>k. if k < 52 then 1 else 5) = Inr arena_map"
proof -
  let ?ints = "\<lambda>k::nat. if k < 52 then 1 else (5::int)"
  have "draws_ok MAP_WIDTH MAP_HEIGHT ?ints"
    by (simp add: draws_ok_def MAP_WIDTH_def MAP_HEIGHT_def)
  from generate_map_cells[OF _ _ this] obtain m where
    m: "generate_map MAP_WIDTH MAP_HEIGHT ?ints = Inr m"
       "grid_ok 20 40 m"
       "\<forall>y<20. \<forall>x<40. m ! y ! x =
          (if y = 0 \<or> y = 19 \<or> x = 0 \<or> x = 39 \<or>
              (\<exists>k<26. y = nat (?ints (2 * k + 1)) \<and> x = nat (?ints (2 * k)))
           then WALL_CHAR else FLOOR_CHAR)"
    by (auto simp: MAP_WIDTH_def MAP_HEIGHT_def WALL_DENSITY_def)
  have drawn: "(\<exists>k<26. y = nat (?ints (2 * k + 1)) \<and> x = nat (?ints (2 * k))) \<longleftrightarrow>
               y = 1 \<and> x = 1" for y x :: nat
    by (auto intro: exI[of _ 0])
  have "m = arena_map"
  proof (rule grid_ok_eqI[OF m(2) grid_ok_arena_map])
    fix y x :: nat
    assume "y < 20" "x < 40"
    with m(3) show "m ! y ! x = arena_map ! y ! x"
      by (simp only: arena_map_cells drawn)
  qed
  with m(1) show ?thesis by simp
qed

lemma spawn_entity_floor:
  "grid_get m (ints (k + 1)) (ints k) = Inr FLOOR_CHAR \<Longrightarrow>
   spawn_entity m ints k = Some (Inr ((ints k, ints (k + 1)), k + 2))"
  by (subst spawn_entity.simps) simp

lemma spawn_entity_found_aux:
  assumes "spawn_entity m ints k = Some r"
  shows "\<forall>pos k'. r = Inr (pos, k') \<longrightarrow>
   grid_get m (snd pos) (fst pos) = Inr FLOOR_CHAR \<and>
   (\<exists>j. fst pos = ints (k + 2 * j) \<and> snd pos = ints (k + 2 * j + 1) \<and> k' = k + 2 * j + 2)"
  using assms
proof (rule spawn_entity.raw_induct[where P = "\<lambda>m ints k r. \<forall>pos k'. r = Inr (pos, k') \<longrightarrow>
   grid_get m (snd pos) (fst pos) = Inr FLOOR_CHAR \<and>
   (\<exists>j. fst pos = ints (k + 2 * j) \<and> snd pos = ints (k + 2 * j + 1) \<and> k' = k + 2 * j + 2)", rotated 1])
  fix spawn :: "string list list \<Rightarrow> (nat \<Rightarrow> int) \<Rightarrow> nat \<Rightarrow> (py_error + (int \<times> int) \<times> nat) option"
    and m :: "string list list" and ints :: "nat \<Rightarrow> int" and k :: nat
    and r :: "py_error + (int \<times> int) \<times> nat"
  assume ih: "\<And>m ints k r. spawn m ints k = Some r \<Longrightarrow>
     \<forall>pos k'. r = Inr (pos, k') \<longrightarrow>
       grid_get m (snd pos) (fst pos) = Inr FLOOR_CHAR \<and>
       (\<exists>j. fst pos = ints (k + 2 * j) \<and> snd pos = ints (k + 2 * j + 1) \<and>
            k' = k + 2 * j + 2)"
    and body: "(case grid_get m (ints (k + 1)) (ints k) of
        Inl err \<Rightarrow> Some (Inl err)
      | Inr c \<Rightarrow> if c = FLOOR_CHAR then Some (Inr ((ints k, ints (k + 1)), k + 2))
                 else spawn m ints (k + 2)) = Some r"
  show "\<forall>pos k'. r = Inr (pos, k') \<longrightarrow>
       grid_get m (snd pos) (fst pos) = Inr FLOOR_CHAR \<and>
       (\<exists>j. fst pos = ints (k + 2 * j) \<and> snd pos = ints (k + 2 * j + 1) \<and>
            k' = k + 2 * j + 2)"
  proof (intro allI impI)
    fix pos k'
    assume r: "r = Inr (pos, k')"
    show "grid_get m (snd pos) (fst pos) = Inr FLOOR_CHAR \<and>
       (\<exists>j. fst pos = ints (k + 2 * j) \<and> snd pos = ints (k + 2 * j + 1) \<and>
            k' = k + 2 * j + 2)"
    proof (cases "grid_get m (ints (k + 1)) (ints k)")
      case (Inl err)
      with body r show ?thesis by simp
    next
      case (Inr c)
      show ?thesis
      proof (cases "c = FLOOR_CHAR")
        case True
        with Inr body r have p: "pos = (ints k, ints (k + 1))" and k': "k' = k + 2"
          by auto
        show ?thesis
        proof (intro conjI exI[of _ 0])
          show "grid_get m (snd pos) (fst pos) = Inr FLOOR_CHAR"
            using Inr True p by simp
          show "fst pos = ints (k + 2 * 0)" using p by simp
          show "snd pos = ints (k + 2 * 0 + 1)" using p by simp
          show "k' = k + 2 * 0 + 2" using k' by simp
        qed
      next
        case False
        with Inr body have "spawn m ints (k + 2) = Some r" by simp
        from ih[OF this] r have
          floor: "grid_get m (snd pos) (fst pos) = Inr FLOOR_CHAR" and
          ex: "\<exists>j. fst pos = ints (k + 2 + 2 * j) \<and> snd pos = ints (k + 2 + 2 * j + 1) \<and>
                   k' = k + 2 + 2 * j + 2"
          by simp_all
        from ex obtain j where
          j: "fst pos = ints (k + 2 + 2 * j)" "snd pos = ints (k + 2 + 2 * j + 1)"
             "k' = k + 2 + 2 * j + 2"
          by (elim exE conjE)
        have shift: "k + 2 * Suc j = k + 2 + 2 * j" by simp
        show ?thesis
        proof (intro conjI exI[of _ "Suc j"])
          show "grid_get m (snd pos) (fst pos) = Inr FLOOR_CHAR" by (rule floor)
          show "fst pos = ints (k + 2 * Suc j)" unfolding shift by (rule j(1))
          show "snd pos = ints (k + 2 * Suc j + 1)" unfolding shift by (rule j(2))
          show "k' = k + 2 * Suc j + 2" unfolding shift by (rule j(3))
        qed
      qed
    qed
  qed
qed

lemma spawn_entity_found:
  "spawn_entity m ints k = Some (Inr (pos, k')) \<Longrightarrow>
   grid_get m (snd pos) (fst pos) = Inr FLOOR_CHAR \<and>
   (\<exists>j. fst pos = ints (k + 2 * j) \<and> snd pos = ints (k + 2 * j + 1) \<and> k' = k + 2 * j + 2)"
  using spawn_entity_found_aux by blast

lemma spawn_enemies_length:
  "spawn_enemies n m inp k es = Some (Inr es') \<Longrightarrow> length es' = length es + n"
proof (induction n arbitrary: k es)
  case 0
  then show ?case by simp
next
  case (Suc n)
  from Suc.prems obtain pos k1 where
    "spawn_enemies n m inp k1
       (es @ [Enemy (fst pos) (snd pos) (ii_times inp (length es))
                (ii_delays inp (length es))]) = Some (Inr es')"
    by (auto split: option.splits sum.splits)
  from Suc.IH[OF this] show ?case by simp
qed

lemma Game_init_fresh:
  assumes "Game_init inp = Some (Inr g)"
  shows "length (enemies g) = NUM_ENEMIES \<and> projectiles g = [] \<and> \<not> game_over g \<and>
         width g = MAP_WIDTH \<and> height g = MAP_HEIGHT \<and>
         p_health (player g) = 100 \<and> p_ammo (player g) = 10"
proof -
  from assms obtain m pos k es where
    es: "spawn_enemies NUM_ENEMIES m inp k [] = Some (Inr es)" and
    g: "g = \<lparr>width = MAP_WIDTH, height = MAP_HEIGHT, game_map = m,
             player = Player (fst pos) (snd pos), enemies = es,
             projectiles = [], last_update = ii_now inp, game_over = False\<rparr>"
    by (auto simp: Game_init_def split: sum.splits option.splits)
  from spawn_enemies_length[OF es] show ?thesis
    by (simp add: g Player_def)
qed

lemma grid_get_arena_5: "grid_get arena_map 5 5 = Inr FLOOR_CHAR"
  by (simp add: grid_get_def py_get_def py_index_def arena_map_def nth_append)

lemma Game_init_arena: "Game_init arena_seed = Some (Inr arena_start)"
proof -
  let ?ints = "\<lambda>k::nat. if k < 52 then 1 else (5::int)"
  have spawn: "52 \<le> k \<Longrightarrow>
      spawn_entity arena_map ?ints k = Some (Inr ((5, 5), k + 2))" for k
    using spawn_entity_floor[of arena_map ?ints k] grid_get_arena_5
    by simp
  have enemies: "52 \<le> k \<Longrightarrow>
      spawn_enemies n arena_map arena_seed k es =
        Some (Inr (es @ replicate n (Enemy 5 5 0 2)))" for n k es
  proof (induction n arbitrary: k es)
    case 0
    then show ?case by simp
  next
    case (Suc n)
    from Suc.prems have "52 \<le> k + 2" by simp
    from Suc.IH[OF this] spawn[OF Suc.prems] show ?case
      by (simp add: arena_seed_def replicate_app_Cons_same)
  qed
  show ?thesis
    using generate_map_arena spawn[of 52] enemies[of 54 NUM_ENEMIES "[]"]
    by (simp add: Game_init_def arena_seed_def arena_start_def MAP_WIDTH_def MAP_HEIGHT_def
        WALL_DENSITY_def NUM_ENEMIES_def)
qed

section \<open>Counting enemies, and winning\<close>











section \<open>Entities and the bounds of the grid\<close>

lemma bk_enemy_advance_inside:
  assumes "\<not> bk_out_of_bounds g pl" and "\<not> bk_out_of_bounds g e"
  shows "\<not> bk_out_of_bounds g (bk_enemy_advance pl e)"
  using assms
  by (auto simp: bk_enemy_advance_eq bk_out_of_bounds_def Let_def)

lemma bk_move_enemies_loop_eq:
  "bk_enemies (bk_move_enemies_loop visited todo g) =
     visited @ map (bk_enemy_advance (bk_player g)) todo \<and>
   bk_player (bk_move_enemies_loop visited todo g) = bk_player g \<and>
   bk_width (bk_move_enemies_loop visited todo g) = bk_width g \<and>
   bk_height (bk_move_enemies_loop visited todo g) = bk_height g \<and>
   bk_bullets (bk_move_enemies_loop visited todo g) = bk_bullets g"
  by (induction todo arbitrary: visited g) (simp_all add: Let_def)

lemma bk_move_enemies_eq:
  "bk_enemies (bk_move_enemies g) = map (bk_enemy_advance (bk_player g)) (bk_enemies g) \<and>
   bk_player (bk_move_enemies g) = bk_player g \<and>
   bk_width (bk_move_enemies g) = bk_width g \<and>
   bk_height (bk_move_enemies g) = bk_height g \<and>
   bk_bullets (bk_move_enemies g) = bk_bullets g"
  using bk_move_enemies_loop_eq[of "[]" "bk_enemies g" g]
  by (simp add: bk_move_enemies_def)

lemma bk_handle_key_actors:
  "bk_actors_inside g \<Longrightarrow> bk_actors_inside (bk_handle_key c g)"
  by (auto simp: bk_actors_inside_def bk_handle_key_def bk_shoot_def bk_out_of_bounds_def
      Let_def list_all_iff)

lemma bk_spawn_enemy_actors:
  "bk_actors_inside g \<Longrightarrow> bk_spawn_range g side r \<Longrightarrow>
   bk_actors_inside (bk_spawn_enemy t side r g)"
  by (cases side)
     (auto simp: bk_actors_inside_def bk_spawn_enemy_def bk_spawn_range_def
       bk_out_of_bounds_def bk_Entity_def Let_def list_all_iff)

lemma bk_move_enemies_actors:
  assumes "bk_actors_inside g"
  shows "bk_actors_inside (bk_move_enemies g)"
proof -
  have oob: "bk_out_of_bounds (bk_move_enemies g) e = bk_out_of_bounds g e" for e
    using bk_move_enemies_eq[of g] by (simp add: bk_out_of_bounds_def)
  from assms show ?thesis
    using bk_move_enemies_eq[of g]
    by (auto simp: bk_actors_inside_def oob list_all_iff dest: bk_enemy_advance_inside)
qed

lemma bk_update_bullets_all_inside:
  assumes "bk_actors_inside g"
  shows "bk_all_inside (bk_update_bullets g)"
proof -
  note frame = bk_update_bullets_loop_frame[of "[]" "bk_bullets g" g,
      folded bk_update_bullets_def]
  have oob: "bk_out_of_bounds (bk_update_bullets g) e = bk_out_of_bounds g e" for e
    using frame by (simp add: bk_out_of_bounds_def)
  from assms frame bk_update_bullets_inside[of g] show ?thesis
    by (auto simp: bk_all_inside_def bk_actors_inside_def oob list_all_iff)
qed

lemma bk_frame_all_inside:
  assumes "bk_all_inside g" and "bk_spawn_range (case key of None \<Rightarrow> g | Some c \<Rightarrow> bk_handle_key c g) side r"
    and "bk_frame key now st side r g = Inr (Some g')"
  shows "bk_all_inside g'"
proof -
  let ?g1 = "case key of None \<Rightarrow> g | Some c \<Rightarrow> bk_handle_key c g"
  let ?g2 = "bk_update_bullets (bk_move_enemies (bk_spawn_enemy st side r ?g1))"
  from assms(1) have "bk_actors_inside g"
    by (simp add: bk_all_inside_def bk_actors_inside_def)
  then have "bk_actors_inside ?g1"
    by (cases key) (simp_all add: bk_handle_key_actors)
  with assms(2) have "bk_all_inside ?g2"
    by (intro bk_update_bullets_all_inside bk_move_enemies_actors bk_spawn_enemy_actors)
  moreover from assms(3) have "g' = ?g2\<lparr>bk_last_update_time := now\<rparr>"
    by (auto simp: bk_frame_def Let_def split: if_splits sum.splits)
  ultimately show ?thesis
    by (simp add: bk_all_inside_def bk_out_of_bounds_def)
qed

lemma bk_Game_init_inside: "0 < w \<Longrightarrow> 0 < h \<Longrightarrow> bk_all_inside (bk_Game_init w h now)"
  by (auto simp: bk_all_inside_def bk_Game_init_def bk_out_of_bounds_def bk_Entity_def)

lemma bk_at_edge_eq:
  "bk_at_edge = (bk_Game_init 40 20 0)\<lparr>bk_player := bk_Entity 39 10 ''@'' 0 0 False\<rparr>"
  by (simp add: bk_at_edge_def eval_nat_numeral bk_handle_key_def bk_Game_init_def
      bk_Entity_def Let_def)

lemma inside_board: "same_board g g' \<Longrightarrow> inside g' x y = inside g x y"
  by (simp add: inside_def same_board_def)

lemma walled_board: "same_board g g' \<Longrightarrow> walled g' = walled g"
  by (simp add: walled_def same_board_def tile_def)

lemma inside_not_out: "inside g (pr_x q) (pr_y q) \<longleftrightarrow> \<not> out_of_bounds g q"
  by (auto simp: inside_def out_of_bounds_def)

lemma shoot_all_inside:
  assumes "all_inside g" and "inside g x y"
  shows "all_inside (shoot x y dx dy e g)"
  using assms
  by (auto simp: all_inside_def shoot_def Let_def Projectile_def inside_def map_ok_def
      walled_def tile_def)

lemma move_entity_all_inside:
  assumes "all_inside g" and "move_entity dx dy g = Inr g'"
  shows "all_inside g'"
  using assms
  by (auto simp: all_inside_def move_entity_def Let_def inside_def map_ok_def
      walled_def tile_def split: if_splits sum.splits)

lemma handle_input_all_inside:
  assumes "all_inside g" and "handle_input k g = Inr g'"
  shows "all_inside g'"
proof -
  from assms(1) have here: "inside g (real_of_int (p_x (player g))) (real_of_int (p_y (player g)))"
    by (simp add: all_inside_def)
  have quit: "all_inside (g\<lparr>game_over := True\<rparr>)"
    using assms(1)
    by (simp add: all_inside_def inside_def map_ok_def walled_def tile_def)
  from assms show ?thesis
    unfolding handle_input_def Let_def
    by (auto split: if_splits intro: shoot_all_inside[OF assms(1) here]
        move_entity_all_inside[OF assms(1)] quit)
qed

lemma update_projectiles_all_inside:
  assumes "all_inside g" and "update_projectiles dt g = Inr g'"
  shows "all_inside g'"
proof -
  note eff = update_projectiles_effect[OF assms(2)]
  then have board: "same_board g g'" by simp
  from eff have "list_all (\<lambda>q. inside g' (pr_x q) (pr_y q)) (projectiles g')"
    by (auto simp: list_all_iff inside_not_out flying_def)
  moreover from eff assms(1) have "list_all (\<lambda>e. inside g' (e_x e) (e_y e)) (enemies g')"
    by (auto simp: list_all_iff all_inside_def inside_board[OF board])
  ultimately show ?thesis
    using assms(1) board
    by (simp add: all_inside_def inside_board[OF board] walled_board[OF board]
        map_ok_same_board[OF board] same_board_def)
qed

lemma py_int_pos: "1 \<le> py_int r \<Longrightarrow> 1 \<le> r"
  by (auto simp: py_int_def split: if_splits)

lemma py_int_upper: "0 \<le> r \<Longrightarrow> py_int r < w \<Longrightarrow> r < real_of_int w"
  by (simp add: py_int_def floor_less_iff)

lemma accepted_move_inside:
  assumes "walled g" and "0 \<le> py_int x" and "py_int x < width g"
    and "0 \<le> py_int y" and "py_int y < height g"
    and floor: "tile g (py_int y) (py_int x) = Inr FLOOR_CHAR"
  shows "inside g x y"
proof -
  from assms have "py_int x \<in> set [0..width g - 1]" "py_int y \<in> set [0..height g - 1]"
    by simp_all
  with assms(1) have "tile g 0 (py_int x) \<noteq> Inr FLOOR_CHAR" "tile g (py_int y) 0 \<noteq> Inr FLOOR_CHAR"
    by (simp_all add: walled_def list_all_iff)
  with floor have "py_int x \<noteq> 0" "py_int y \<noteq> 0"
    by auto
  with assms(2,4) have "1 \<le> py_int x" "1 \<le> py_int y"
    by simp_all
  then have "1 \<le> x" "1 \<le> y"
    by (auto dest: py_int_pos)
  with assms(3,5) show ?thesis
    by (simp add: inside_def py_int_upper)
qed

lemma enemy_step_inside:
  assumes "walled g" and "inside g (e_x e) (e_y e)"
    and "enemy_step dt now draws e g = Inr (en, g')"
  shows "inside g (e_x en) (e_y en) \<and>
         (g' = g \<or> (\<exists>sdx sdy. g' = shoot (e_x en) (e_y en) sdx sdy True g))"
proof -
  define jx where "jx = fst draws"
  define jy where "jy = fst (snd draws)"
  define dx where "dx = real_of_int (p_x (player g)) - e_x e"
  define dy where "dy = real_of_int (p_y (player g)) - e_y e"
  define distance where "distance = sqrt (dx\<^sup>2 + dy\<^sup>2)"
  define new_x where
    "new_x = e_x e + ((if distance > 0 then dx / distance else dx) + jx) * e_speed e * dt"
  define new_y where
    "new_y = e_y e + ((if distance > 0 then dy / distance else dy) + jy) * e_speed e * dt"
  define moved where
    "moved = (if 0 \<le> py_int new_x \<and> py_int new_x < width g \<and>
                 0 \<le> py_int new_y \<and> py_int new_y < height g
              then (case tile g (py_int new_y) (py_int new_x) of
                      Inl err \<Rightarrow> Inl err
                    | Inr c \<Rightarrow> Inr (if c = FLOOR_CHAR
                                      then e\<lparr>e_x := new_x, e_y := new_y\<rparr>
                                      else e))
              else Inr e)"
  have step: "enemy_step dt now draws e g =
     (case moved of
        Inl err \<Rightarrow> Inl err
      | Inr en \<Rightarrow>
          if now - e_last_shot_time en \<ge> e_shoot_delay en
          then
            let shot_dx = real_of_int (p_x (player g)) - e_x en;
                shot_dy = real_of_int (p_y (player g)) - e_y en;
                shot_distance = sqrt (shot_dx\<^sup>2 + shot_dy\<^sup>2);
                sdx = (if shot_distance > 0 then shot_dx / shot_distance else shot_dx);
                sdy = (if shot_distance > 0 then shot_dy / shot_distance else shot_dy)
            in Inr (en\<lparr>e_last_shot_time := now, e_shoot_delay := snd (snd draws)\<rparr>,
                    shoot (e_x en) (e_y en) sdx sdy True g)
          else Inr (en, g))"
    unfolding enemy_step_def moved_def new_x_def new_y_def distance_def dx_def dy_def
      jx_def jy_def Let_def ..
  from assms(3) obtain em where em: "moved = Inr em"
    unfolding step by (cases moved) simp_all
  have pos: "inside g (e_x em) (e_y em)"
  proof (cases "em = e")
    case True
    with assms(2) show ?thesis by simp
  next
    case False
    with em have acc: "0 \<le> py_int new_x" "py_int new_x < width g"
      "0 \<le> py_int new_y" "py_int new_y < height g"
      "tile g (py_int new_y) (py_int new_x) = Inr FLOOR_CHAR"
      "em = e\<lparr>e_x := new_x, e_y := new_y\<rparr>"
      unfolding moved_def by (auto split: if_splits sum.splits)
    from accepted_move_inside[OF assms(1) acc(1-5)] acc(6) show ?thesis by simp
  qed
  show ?thesis
  proof (cases "now - e_last_shot_time em \<ge> e_shoot_delay em")
    case False
    with assms(3) em have "en = em" "g' = g"
      unfolding step by simp_all
    with pos show ?thesis by simp
  next
    case True
    with assms(3) em have
      "en = em\<lparr>e_last_shot_time := now, e_shoot_delay := snd (snd draws)\<rparr> \<and>
       (\<exists>sdx sdy. g' = shoot (e_x em) (e_y em) sdx sdy True g)"
      unfolding step by (auto simp: Let_def)
    with pos show ?thesis by auto
  qed
qed

lemma shoot_stage_inside:
  assumes "stage_inside g" and "inside g x y"
  shows "stage_inside (shoot x y dx dy True g) \<and> same_board g (shoot x y dx dy True g)"
  using assms
  by (auto simp: stage_inside_def shoot_def Let_def Projectile_def inside_def map_ok_def
      walled_def tile_def same_board_def)

lemma update_enemies_loop_inside:
  assumes "update_enemies_loop dt now rnd visited todo g = Inr g'"
    and "stage_inside g"
    and "list_all (\<lambda>e. inside g (e_x e) (e_y e)) visited"
    and "list_all (\<lambda>e. inside g (e_x e) (e_y e)) todo"
  shows "all_inside g' \<and> length (enemies g') = length visited + length todo"
  using assms
proof (induction todo arbitrary: visited g)
  case Nil
  then show ?case
    by (auto simp: all_inside_def stage_inside_def inside_def map_ok_def walled_def tile_def)
next
  case (Cons e todo)
  from Cons.prems(1) obtain en g1 where
    step: "enemy_step dt now (rnd (length visited)) e g = Inr (en, g1)" and
    rest: "update_enemies_loop dt now rnd (visited @ [en]) todo g1 = Inr g'"
    by (auto split: sum.splits)
  from Cons.prems(2) have w: "walled g" by (simp add: stage_inside_def)
  from Cons.prems(4) have e: "inside g (e_x e) (e_y e)" by simp
  from enemy_step_inside[OF w e step] have
    en: "inside g (e_x en) (e_y en)" and
    g1: "g1 = g \<or> (\<exists>sdx sdy. g1 = shoot (e_x en) (e_y en) sdx sdy True g)"
    by simp_all
  from g1 Cons.prems(2) en have st1: "stage_inside g1" and board: "same_board g g1"
    using shoot_stage_inside by auto
  from Cons.prems(3,4) en have
    "list_all (\<lambda>e. inside g1 (e_x e) (e_y e)) (visited @ [en])"
    "list_all (\<lambda>e. inside g1 (e_x e) (e_y e)) todo"
    by (simp_all add: inside_board[OF board])
  from Cons.IH[OF rest st1 this] show ?case by simp
qed

lemma update_enemies_all_inside:
  assumes "all_inside g" and "update_enemies dt now rnd g = Inr g'"
  shows "all_inside g' \<and> length (enemies g') = length (enemies g)"
  using update_enemies_loop_inside[of dt now rnd "[]" "enemies g" g g'] assms
  by (simp add: update_enemies_def all_inside_def stage_inside_def)

lemma spawn_entity_range:
  assumes "draws_ok w h ints" and "even k" and "spawn_entity m ints k = Some (Inr (pos, k'))"
  shows "1 \<le> fst pos \<and> fst pos \<le> w - 2 \<and> 1 \<le> snd pos \<and> snd pos \<le> h - 2 \<and> even k'"
proof -
  from spawn_entity_found[OF assms(3)] obtain j where
    j: "fst pos = ints (k + 2 * j)" "snd pos = ints (k + 2 * j + 1)" "k' = k + 2 * j + 2"
    by blast
  from assms(2) obtain a where a: "k = 2 * a" by (elim evenE)
  have "k + 2 * j = 2 * (a + j)" by (simp add: a)
  with assms(1) j(1,2) have "1 \<le> fst pos \<and> fst pos \<le> w - 2 \<and> 1 \<le> snd pos \<and> snd pos \<le> h - 2"
    unfolding draws_ok_def by metis
  moreover from assms(2) j(3) have "even k'" by simp
  ultimately show ?thesis by simp
qed

lemma spawn_enemies_range:
  assumes "draws_ok w h (ii_ints inp)" and "even k"
    and "list_all (\<lambda>e. 1 \<le> e_x e \<and> e_x e \<le> real_of_int (w - 2) \<and>
                         1 \<le> e_y e \<and> e_y e \<le> real_of_int (h - 2)) es"
    and "spawn_enemies n m inp k es = Some (Inr es')"
  shows "list_all (\<lambda>e. 1 \<le> e_x e \<and> e_x e \<le> real_of_int (w - 2) \<and>
                         1 \<le> e_y e \<and> e_y e \<le> real_of_int (h - 2)) es'"
  using assms(2-)
proof (induction n arbitrary: k es)
  case 0
  then show ?case by simp
next
  case (Suc n)
  from Suc.prems(3) obtain pos k1 where
    sp: "spawn_entity m (ii_ints inp) k = Some (Inr (pos, k1))" and
    rest: "spawn_enemies n m inp k1
       (es @ [Enemy (fst pos) (snd pos) (ii_times inp (length es))
                (ii_delays inp (length es))]) = Some (Inr es')"
    by (auto split: option.splits sum.splits)
  from spawn_entity_range[OF assms(1) Suc.prems(1) sp] have
    r: "1 \<le> fst pos" "fst pos \<le> w - 2" "1 \<le> snd pos" "snd pos \<le> h - 2" and ev: "even k1"
    by simp_all
  from r have "1 \<le> real_of_int (fst pos)" "real_of_int (fst pos) \<le> real_of_int (w - 2)"
    "1 \<le> real_of_int (snd pos)" "real_of_int (snd pos) \<le> real_of_int (h - 2)"
    by (simp_all only: of_int_le_iff of_int_1_le_iff)
  with Suc.prems(2) have "list_all (\<lambda>e. 1 \<le> e_x e \<and> e_x e \<le> real_of_int (w - 2) \<and>
                         1 \<le> e_y e \<and> e_y e \<le> real_of_int (h - 2))
     (es @ [Enemy (fst pos) (snd pos) (ii_times inp (length es)) (ii_delays inp (length es))])"
    by (simp add: Enemy_def)
  from Suc.IH[OF ev this rest] show ?case .
qed

lemma Game_init_all_inside:
  assumes "Game_init inp = Some (Inr g)" and draws: "draws_ok MAP_WIDTH MAP_HEIGHT (ii_ints inp)"
  shows "all_inside g"
proof -
  from assms(1) obtain m pos k es where
    gen: "generate_map MAP_WIDTH MAP_HEIGHT (ii_ints inp) = Inr m" and
    pl: "spawn_entity m (ii_ints inp) (2 * nat (MAP_WIDTH * MAP_HEIGHT div WALL_DENSITY))
           = Some (Inr (pos, k))" and
    es: "spawn_enemies NUM_ENEMIES m inp k [] = Some (Inr es)" and
    g: "g = \<lparr>width = MAP_WIDTH, height = MAP_HEIGHT, game_map = m,
             player = Player (fst pos) (snd pos), enemies = es,
             projectiles = [], last_update = ii_now inp, game_over = False\<rparr>"
    by (auto simp: Game_init_def split: sum.splits option.splits)
  have wh: "0 < MAP_WIDTH" "0 < MAP_HEIGHT"
    by (simp_all add: MAP_WIDTH_def MAP_HEIGHT_def)
  from generate_map_cells[OF wh draws] gen have
    ok: "grid_ok (nat MAP_HEIGHT) (nat MAP_WIDTH) m" and
    cells: "\<forall>y<nat MAP_HEIGHT. \<forall>x<nat MAP_WIDTH.
               (y = 0 \<or> x = 0) \<longrightarrow> m ! y ! x = WALL_CHAR"
    by auto
  from wh have nwh: "0 < nat MAP_WIDTH" "0 < nat MAP_HEIGHT"
    by simp_all
  have cells_row: "m ! 0 ! x = WALL_CHAR" if "x < nat MAP_WIDTH" for x
    using cells[rule_format, OF nwh(2) that] by simp
  have cells_col: "m ! y ! 0 = WALL_CHAR" if "y < nat MAP_HEIGHT" for y
    using cells[rule_format, OF that nwh(1)] by simp
  have mok: "map_ok g"
    using ok by (simp add: map_ok_def grid_ok_def g)
  have wall: "WALL_CHAR \<noteq> FLOOR_CHAR"
    by (simp add: WALL_CHAR_def FLOOR_CHAR_def)
  have row0: "tile g 0 x \<noteq> Inr FLOOR_CHAR" if "x \<in> set [0..width g - 1]" for x
  proof -
    from that wh have x: "0 \<le> x" "x < width g" "(0::int) < height g" by (simp_all add: g)
    from tile_inside[OF mok _ x(3) x(1) x(2)] have "tile g 0 x = Inr (m ! 0 ! nat x)"
      by (simp add: g)
    moreover from x have "nat x < nat MAP_WIDTH"
      by (simp add: g)
    then have "m ! 0 ! nat x = WALL_CHAR"
      by (rule cells_row)
    ultimately show ?thesis using wall by simp
  qed
  have col0: "tile g y 0 \<noteq> Inr FLOOR_CHAR" if "y \<in> set [0..height g - 1]" for y
  proof -
    from that wh have y: "0 \<le> y" "y < height g" "(0::int) < width g" by (simp_all add: g)
    from tile_inside[OF mok y(1) y(2) _ y(3)] have "tile g y 0 = Inr (m ! nat y ! 0)"
      by (simp add: g)
    moreover from y have "nat y < nat MAP_HEIGHT"
      by (simp add: g)
    then have "m ! nat y ! 0 = WALL_CHAR"
      by (rule cells_col)
    ultimately show ?thesis using wall by simp
  qed
  from row0 col0 have wl: "walled g"
    by (simp add: walled_def list_all_iff)
  from spawn_entity_range[OF draws _ pl] have
    p: "1 \<le> fst pos" "fst pos \<le> MAP_WIDTH - 2" "1 \<le> snd pos" "snd pos \<le> MAP_HEIGHT - 2"
    and ev: "even k"
    by simp_all
  from p have pin: "inside g (real_of_int (p_x (player g))) (real_of_int (p_y (player g)))"
    by (simp add: inside_def g Player_def)
  from spawn_enemies_range[OF draws ev _ es] have
    "list_all (\<lambda>e. 1 \<le> e_x e \<and> e_x e \<le> real_of_int (MAP_WIDTH - 2) \<and>
                    1 \<le> e_y e \<and> e_y e \<le> real_of_int (MAP_HEIGHT - 2)) es"
    by simp
  then have ein: "list_all (\<lambda>e. inside g (e_x e) (e_y e)) (enemies g)"
    by (auto simp: list_all_iff inside_def g)
  from mok wl pin ein show ?thesis
    by (simp add: all_inside_def g)
qed

lemma fold_err_keeps:
  assumes body: "\<And>a s. a \<in> set as \<Longrightarrow> I s \<Longrightarrow> \<exists>s'. f a s = Inr s' \<and> I s'"
    and "I s"
  shows "\<exists>s'. fold_err f as s = Inr s' \<and> I s'"
  using assms
proof (induction as arbitrary: s)
  case Nil
  then show ?case by simp
next
  case (Cons a as)
  from Cons.prems(1)[of a s] Cons.prems(2) obtain s1 where s1: "f a s = Inr s1" "I s1"
    by auto
  from Cons.IH[of s1] Cons.prems(1) s1(2) obtain s2 where "fold_err f as s1 = Inr s2" "I s2"
    by auto
  with s1 show ?case by simp
qed

lemma grid_ok_update:
  assumes "grid_ok H W m" and "y < H"
  shows "grid_ok H W (m[y := (m ! y)[x := c]])"
  using assms
  by (auto simp: grid_ok_def list_all_length nth_list_update)

lemma bk_put_inside:
  assumes "grid_ok (nat (bk_height g)) (nat (bk_width g)) m" and "\<not> bk_out_of_bounds g e"
  shows "\<exists>m'. bk_put e m = Inr m' \<and> grid_ok (nat (bk_height g)) (nat (bk_width g)) m'"
proof -
  from assms(2) have e: "0 \<le> bk_y e" "bk_y e < int (nat (bk_height g))"
    "0 \<le> bk_x e" "bk_x e < int (nat (bk_width g))"
    by (simp_all add: bk_out_of_bounds_def)
  from e(1,2) have "nat (bk_y e) < nat (bk_height g)" by linarith
  from grid_set_inside[OF assms(1) e] grid_ok_update[OF assms(1) this] show ?thesis
    by (simp add: bk_put_def)
qed

lemma bk_draw_total:
  assumes "bk_all_inside g"
  shows "\<exists>lines. bk_draw g = Inr lines"
proof -
  let ?ok = "grid_ok (nat (bk_height g)) (nat (bk_width g))"
  let ?grid = "replicate (nat (bk_height g)) (replicate (nat (bk_width g)) '' '')"
  have ok0: "?ok ?grid" by (rule grid_ok_replicate)
  from assms have b: "\<And>e m. e \<in> set (bk_bullets g) \<Longrightarrow> ?ok m \<Longrightarrow> \<exists>m'. bk_put e m = Inr m' \<and> ?ok m'"
    by (auto simp: bk_all_inside_def list_all_iff intro: bk_put_inside)
  from assms have e: "\<And>e m. e \<in> set (bk_enemies g) \<Longrightarrow> ?ok m \<Longrightarrow> \<exists>m'. bk_put e m = Inr m' \<and> ?ok m'"
    by (auto simp: bk_all_inside_def list_all_iff intro: bk_put_inside)
  from fold_err_keeps[of "bk_bullets g" ?ok bk_put, OF b ok0] obtain m1 where
    m1: "fold_err bk_put (bk_bullets g) ?grid = Inr m1" "?ok m1" by blast
  from fold_err_keeps[of "bk_enemies g" ?ok bk_put, OF e m1(2)] obtain m2 where
    m2: "fold_err bk_put (bk_enemies g) m1 = Inr m2" "?ok m2" by blast
  from assms bk_put_inside[OF m2(2), of "bk_player g"] obtain m3 where
    "bk_put (bk_player g) m2 = Inr m3" by (auto simp: bk_all_inside_def)
  with m1 m2 show ?thesis
    by (simp add: bk_draw_def bk_draw_grid_def Let_def)
qed

lemma bk_frame_total:
  assumes "bk_all_inside g" and "bk_spawn_range g side r" and "key \<noteq> Some CHR ''q''"
  shows "\<exists>g'. bk_frame key now st side r g = Inr (Some g') \<and> bk_all_inside g'"
proof -
  let ?g1 = "case key of None \<Rightarrow> g | Some c \<Rightarrow> bk_handle_key c g"
  let ?g2 = "bk_update_bullets (bk_move_enemies (bk_spawn_enemy st side r ?g1))"
  have "bk_width ?g1 = bk_width g \<and> bk_height ?g1 = bk_height g"
    by (cases key) (simp_all add: bk_handle_key_def bk_shoot_def Let_def)
  with assms(2) have range: "bk_spawn_range ?g1 side r"
    by (cases side) (simp_all add: bk_spawn_range_def)
  from assms(1) have "bk_actors_inside g"
    by (simp add: bk_all_inside_def bk_actors_inside_def)
  then have "bk_actors_inside ?g1"
    by (cases key) (simp_all add: bk_handle_key_actors)
  with range have in2: "bk_all_inside ?g2"
    by (intro bk_update_bullets_all_inside bk_move_enemies_actors bk_spawn_enemy_actors)
  then obtain lines where "bk_draw ?g2 = Inr lines"
    using bk_draw_total by blast
  with assms(3) have "bk_frame key now st side r g = Inr (Some (?g2\<lparr>bk_last_update_time := now\<rparr>))"
    by (simp add: bk_frame_def Let_def)
  moreover from in2 have "bk_all_inside (?g2\<lparr>bk_last_update_time := now\<rparr>)"
    by (simp add: bk_all_inside_def bk_out_of_bounds_def)
  ultimately show ?thesis by blast
qed

lemma move_entity_total: "map_ok g \<Longrightarrow> \<exists>g'. move_entity dx dy g = Inr g'"
  by (auto simp: move_entity_def Let_def tile_inside)

lemma handle_input_total: "map_ok g \<Longrightarrow> \<exists>g'. handle_input k g = Inr g'"
  using move_entity_total[of g]
  by (simp add: handle_input_def Let_def)

lemma enemy_step_total: "map_ok g \<Longrightarrow> \<exists>r. enemy_step dt now draws e g = Inr r"
  by (auto simp: enemy_step_def Let_def tile_inside)

lemma enemy_step_board:
  "enemy_step dt now draws e g = Inr (en, g') \<Longrightarrow> same_board g g'"
  by (auto simp: enemy_step_def Let_def same_board_def shoot_def split: if_splits sum.splits)

lemma update_enemies_loop_total:
  "map_ok g \<Longrightarrow> \<exists>g'. update_enemies_loop dt now rnd visited todo g = Inr g'"
proof (induction todo arbitrary: visited g)
  case Nil
  then show ?case by simp
next
  case (Cons e todo)
  from enemy_step_total[OF Cons.prems] obtain en g1 where
    step: "enemy_step dt now (rnd (length visited)) e g = Inr (en, g1)"
    by (metis surj_pair)
  from enemy_step_board[OF step] Cons.prems have "map_ok g1"
    by (simp add: map_ok_same_board)
  from Cons.IH[OF this] step show ?case by simp
qed

lemma update_enemies_total: "map_ok g \<Longrightarrow> \<exists>g'. update_enemies dt now rnd g = Inr g'"
  unfolding update_enemies_def by (rule update_enemies_loop_total)

text \<open>
  C5, as the code has it. Simple variant: a new game has every entity inside the grid;
  a key keeps the player and the enemies inside, and so do spawn_enemy and
  move_enemies; update_bullets leaves every entity inside; a frame that starts with every
  entity inside ends, after update_bullets and draw, with every entity inside. Richer variant:
  the constructor, given draws in the ranges of \<open>random.randint\<close>, builds a game with
  every entity inside, and each of handle_input, update_projectiles and update_enemies
  returns and keeps every entity inside (an enemy's fractional step included, thanks to
  the border walls).
\<close>

theorem entities_inside_between_calls:
  "(0 < w \<and> 0 < h \<longrightarrow> bk_all_inside (bk_Game_init w h t0)) \<and>
   (bk_all_inside g \<longrightarrow> bk_actors_inside (bk_handle_key c g)) \<and>
   (bk_actors_inside f \<and> bk_spawn_range f side' r' \<longrightarrow>
      bk_actors_inside (bk_spawn_enemy st' side' r' f)) \<and>
   (bk_actors_inside f \<longrightarrow>
      bk_actors_inside (bk_move_enemies f) \<and> bk_all_inside (bk_update_bullets f)) \<and>
   (bk_all_inside g \<and> bk_spawn_range g side r \<and> key \<noteq> Some CHR ''q'' \<longrightarrow>
      (\<exists>g'. bk_frame key now st side r g = Inr (Some g') \<and> bk_all_inside g')) \<and>
   (draws_ok MAP_WIDTH MAP_HEIGHT (ii_ints inp) \<and> Game_init inp = Some (Inr G0) \<longrightarrow>
      all_inside G0) \<and>
   (all_inside G \<longrightarrow>
      (\<exists>G'. handle_input k G = Inr G' \<and> all_inside G') \<and>
      (\<exists>G'. update_projectiles dt G = Inr G' \<and> all_inside G') \<and>
      (\<exists>G'. update_enemies dt enow rnd G = Inr G' \<and> all_inside G'))"
proof (intro conjI impI)
  assume "0 < w \<and> 0 < h"
  then show "bk_all_inside (bk_Game_init w h t0)"
    by (simp add: bk_Game_init_inside)
next
  assume "bk_all_inside g"
  then have "bk_actors_inside g"
    by (simp add: bk_all_inside_def bk_actors_inside_def)
  then show "bk_actors_inside (bk_handle_key c g)"
    by (rule bk_handle_key_actors)
next
  assume "bk_actors_inside f \<and> bk_spawn_range f side' r'"
  then show "bk_actors_inside (bk_spawn_enemy st' side' r' f)"
    by (simp add: bk_spawn_enemy_actors)
next
  assume mid: "bk_actors_inside f"
  then show "bk_actors_inside (bk_move_enemies f)"
    by (rule bk_move_enemies_actors)
  from mid show "bk_all_inside (bk_update_bullets f)"
    by (rule bk_update_bullets_all_inside)
next
  assume "bk_all_inside g \<and> bk_spawn_range g side r \<and> key \<noteq> Some CHR ''q''"
  then show "\<exists>g'. bk_frame key now st side r g = Inr (Some g') \<and> bk_all_inside g'"
    by (simp add: bk_frame_total)
next
  assume "draws_ok MAP_WIDTH MAP_HEIGHT (ii_ints inp) \<and> Game_init inp = Some (Inr G0)"
  then show "all_inside G0"
    using Game_init_all_inside by blast
next
  assume in0: "all_inside G"
  then have mok: "map_ok G" by (simp add: all_inside_def)
  from handle_input_total[OF mok] obtain G1 where "handle_input k G = Inr G1" by blast
  with in0 show "\<exists>G'. handle_input k G = Inr G' \<and> all_inside G'"
    using handle_input_all_inside by blast
  from update_projectiles_total[OF mok] obtain G2 where "update_projectiles dt G = Inr G2"
    by blast
  with in0 show "\<exists>G'. update_projectiles dt G = Inr G' \<and> all_inside G'"
    using update_projectiles_all_inside by blast
  from update_enemies_total[OF mok] obtain G3 where "update_enemies dt enow rnd G = Inr G3"
    by blast
  with in0 show "\<exists>G'. update_enemies dt enow rnd G = Inr G' \<and> all_inside G'"
    using update_enemies_all_inside by blast
qed

theorem entities_inside_between_calls_witness:
  "bk_all_inside (bk_Game_init 40 20 0) \<and>
   bk_actors_inside (bk_handle_key CHR ''l'' bk_at_edge) \<and>
   (\<exists>g'. bk_frame (Some CHR ''l'') 0 0 Top 0 bk_at_edge = Inr (Some g') \<and> bk_all_inside g') \<and>
   all_inside arena_start \<and>
   handle_input (Ch CHR ''d'') arena_start = Inr arena_fired \<and> all_inside arena_fired \<and>
   update_projectiles (1 / 2) arena_fired = Inr arena_flown \<and> all_inside arena_flown \<and>
   update_enemies (1 / 2) (1 / 2) (\<lambda>i. (0, 0, 2)) arena_start = Inr arena_start \<and>
   bk_actors_inside (bk_spawn_enemy 1 Top 0 (bk_handle_key CHR ''l'' bk_at_edge)) \<and>
   bk_actors_inside (bk_move_enemies (bk_handle_key CHR ''l'' bk_at_edge)) \<and>
   bk_all_inside (bk_update_bullets (bk_handle_key CHR ''l'' bk_at_edge))"
proof -
  have edge: "bk_all_inside bk_at_edge"
    by (simp add: bk_at_edge_eq bk_all_inside_def bk_Game_init_def bk_Entity_def
        bk_out_of_bounds_def)
  have range: "bk_spawn_range bk_at_edge Top 0"
    by (simp add: bk_at_edge_eq bk_spawn_range_def bk_Game_init_def)
  have draws: "draws_ok MAP_WIDTH MAP_HEIGHT (ii_ints arena_seed)"
    by (simp add: draws_ok_def arena_seed_def MAP_WIDTH_def MAP_HEIGHT_def)
  have fired: "handle_input (Ch CHR ''d'') arena_start = Inr arena_fired"
    by (simp add: handle_input_def shoot_def arena_fired_def arena_start_def arena_simps Let_def)
  have ten: "replicate 10 e = [e, e, e, e, e, e, e, e, e, e]" for e :: Enemy
    by (simp add: eval_nat_numeral)
  have flown: "update_projectiles (1 / 2) arena_fired = Inr arena_flown"
    by (simp add: arena_fired_def arena_flown_def arena_start_def arena_simps step_simps ten)
  have still: "update_enemies (1 / 2) (1 / 2) (\<lambda>i. (0, 0, 2)) arena_start = Inr arena_start"
    by (simp add: update_enemies_def enemy_step_def arena_start_def arena_simps step_simps ten)
  note first = entities_inside_between_calls[where w = 40 and h = 20 and ?t0.0 = 0
      and g = bk_at_edge and c = "CHR ''l''" and key = "Some CHR ''l''" and side = Top
      and r = 0 and now = 0 and st = 0 and inp = arena_seed and ?G0.0 = arena_start
      and G = arena_start and k = "Ch CHR ''d''" and dt = "1 / 2" and enow = "1 / 2"
      and rnd = "\<lambda>i. (0, 0, 2)"]
  from first edge range draws Game_init_arena have start: "all_inside arena_start"
    by simp
  note second = entities_inside_between_calls[where w = 40 and h = 20 and ?t0.0 = 0
      and g = bk_at_edge and c = "CHR ''l''" and key = "Some CHR ''l''" and side = Top
      and r = 0 and now = 0 and st = 0 and inp = arena_seed and ?G0.0 = arena_start
      and G = arena_fired and k = "Ch CHR ''d''" and dt = "1 / 2" and enow = "1 / 2"
      and rnd = "\<lambda>i. (0, 0, 2)"]
  from first edge range start fired have a: "bk_all_inside (bk_Game_init 40 20 0)"
    and b: "bk_actors_inside (bk_handle_key CHR ''l'' bk_at_edge)"
    and c: "\<exists>g'. bk_frame (Some CHR ''l'') 0 0 Top 0 bk_at_edge = Inr (Some g') \<and> bk_all_inside g'"
    and d: "all_inside arena_fired"
    by simp_all
  from second d flown have e: "all_inside arena_flown"
    by simp
  have range': "bk_spawn_range (bk_handle_key CHR ''l'' bk_at_edge) Top 0"
    by (simp add: bk_at_edge_eq bk_spawn_range_def bk_handle_key_def bk_shoot_def
        bk_Game_init_def Let_def)
  note third = entities_inside_between_calls[where f = "bk_handle_key CHR ''l'' bk_at_edge"
      and side' = Top and r' = 0 and st' = 1]
  from third[THEN conjunct2, THEN conjunct2, THEN conjunct1] b range'
  have s: "bk_actors_inside (bk_spawn_enemy 1 Top 0 (bk_handle_key CHR ''l'' bk_at_edge))"
    by blast
  from third[THEN conjunct2, THEN conjunct2, THEN conjunct2, THEN conjunct1] b
  have m: "bk_actors_inside (bk_move_enemies (bk_handle_key CHR ''l'' bk_at_edge))"
    and u: "bk_all_inside (bk_update_bullets (bk_handle_key CHR ''l'' bk_at_edge))"
    by blast+
  from a b c start fired d flown e still s m u show ?thesis
    by simp
qed

text \<open>
  C5 as stated does not hold of the simple variant: \<open>shoot\<close> creates the bullet one
  cell from the player without a test. With the player on the last column (x = 39 of
  width 40), the key \<open>l\<close> appends a bullet at x = 40, which is in the list of bullets
  until update_bullets of the frame removes it.
\<close>

theorem bullet_created_outside_grid:
  "bk_player bk_at_edge = bk_Entity 39 10 ''@'' 0 0 False \<and>
   bk_width bk_at_edge = 40 \<and>
   bk_bullets (bk_handle_key CHR ''l'' bk_at_edge) = [bk_Entity 40 10 ARROW_RIGHT 1 0 False] \<and>
   bk_out_of_bounds (bk_handle_key CHR ''l'' bk_at_edge) (bk_Entity 40 10 ARROW_RIGHT 1 0 False)"
  by (simp add: bk_at_edge_eq bk_handle_key_def bk_shoot_def bk_Game_init_def bk_Entity_def
      bk_out_of_bounds_def ARROW_RIGHT_def Let_def)

section \<open>The richer variant: health and the game-over flag\<close>

lemma projectile_step_strikes:
  assumes "projectile_step dt p g = Inr (r, g1)"
  shows "p_health (player g1) =
           p_health (player g) - (if strikes g (projectile_advance dt p) then 10 else 0) \<and>
         (game_over g1 \<longleftrightarrow>
            game_over g \<or> (strikes g (projectile_advance dt p) \<and> p_health (player g1) \<le> 0))"
  using assms
  by (auto simp: projectile_step_def strikes_def Let_def
      split: if_splits sum.splits option.splits)

lemma strikes_same_board: "same_board g g' \<Longrightarrow> strikes g' p = strikes g p"
  by (simp add: strikes_def same_board_def out_of_bounds_def tile_def hits_player_def)

lemma update_projectiles_loop_strikes:
  "update_projectiles_loop dt kept ps g = Inr g' \<Longrightarrow>
   p_health (player g') =
     p_health (player g) -
       10 * int (length (filter (\<lambda>p. strikes g (projectile_advance dt p)) ps)) \<and>
   (game_over g' \<longleftrightarrow>
      game_over g \<or>
      (filter (\<lambda>p. strikes g (projectile_advance dt p)) ps \<noteq> [] \<and> p_health (player g') \<le> 0))"
proof (induction ps arbitrary: kept g)
  case Nil
  then show ?case by auto
next
  case (Cons p ps)
  let ?S = "\<lambda>h q. strikes h (projectile_advance dt q)"
  from Cons.prems obtain r g1 kept1 where
    step: "projectile_step dt p g = Inr (r, g1)" and
    rest: "update_projectiles_loop dt kept1 ps g1 = Inr g'"
    by (auto split: sum.splits option.splits)
  from projectile_step_effect[OF step] have board: "same_board g g1" by simp
  then have same: "?S g1 = ?S g"
    by (simp add: strikes_same_board fun_eq_iff)
  note one = projectile_step_strikes[OF step]
  note more = Cons.IH[OF rest, unfolded same]
  have len: "0 \<le> int (length (filter (?S g) ps))" by simp
  show ?case
  proof (cases "?S g p")
    case True
    with one more show ?thesis by auto
  next
    case False
    with one more show ?thesis by auto
  qed
qed

lemma update_projectiles_strikers:
  assumes "update_projectiles dt g = Inr g'"
  shows "p_health (player g') = p_health (player g) - 10 * int (length (strikers dt g)) \<and>
         (game_over g' \<longleftrightarrow>
            game_over g \<or> (strikers dt g \<noteq> [] \<and> p_health (player g') \<le> 0))"
  using update_projectiles_loop_strikes[of dt "[]" "projectiles g" g g'] assms
  by (simp add: update_projectiles_def strikers_def)

lemma strikers_enemy: "length (strikers dt g) \<le> length (filter pr_is_enemy (projectiles g))"
proof -
  have "strikers dt g = filter (\<lambda>p. strikes g (projectile_advance dt p))
                          (filter pr_is_enemy (projectiles g))"
    by (auto simp: strikers_def strikes_def projectile_advance_def intro: filter_cong)
  then have "length (strikers dt g) =
      length (filter (\<lambda>p. strikes g (projectile_advance dt p))
                (filter pr_is_enemy (projectiles g)))"
    by (simp only:)
  also have "\<dots> \<le> length (filter pr_is_enemy (projectiles g))"
    by (rule length_filter_le)
  finally show ?thesis .
qed

lemma handle_input_health:
  assumes "handle_input k g = Inr g'"
  shows "p_health (player g') = p_health (player g) \<and> (game_over g \<longrightarrow> game_over g')"
  using assms
  by (auto simp: handle_input_def move_entity_def shoot_def Let_def
      split: if_splits sum.splits)

lemma enemy_step_player:
  assumes "enemy_step dt now draws e g = Inr (en, g')"
  shows "player g' = player g \<and> game_over g' = game_over g"
  using assms
  by (auto simp: enemy_step_def shoot_def Let_def split: if_splits sum.splits)

lemma update_enemies_loop_player:
  "update_enemies_loop dt now rnd visited todo g = Inr g' \<Longrightarrow>
   player g' = player g \<and> game_over g' = game_over g"
proof (induction todo arbitrary: visited g)
  case Nil
  then show ?case by auto
next
  case (Cons e todo)
  from Cons.prems obtain en g1 where
    step: "enemy_step dt now (rnd (length visited)) e g = Inr (en, g1)" and
    rest: "update_enemies_loop dt now rnd (visited @ [en]) todo g1 = Inr g'"
    by (auto split: sum.splits)
  from enemy_step_player[OF step] Cons.IH[OF rest] show ?case by simp
qed

lemma update_enemies_player:
  assumes "update_enemies dt now rnd g = Inr g'"
  shows "player g' = player g \<and> game_over g' = game_over g"
  using update_enemies_loop_player[of dt now rnd "[]" "enemies g" g g'] assms
  by (simp add: update_enemies_def)

lemma run_updates_alive:
  assumes "run_updates inp g = Inr (g', scr)" and "game_over g \<or> 0 < p_health (player g)"
  shows "game_over g' \<or> 0 < p_health (player g')"
proof -
  let ?g0 = "g\<lparr>last_update := ti_now inp\<rparr>"
  from assms(1) obtain g1 g2 where
    a: "handle_input (ti_key inp) ?g0 = Inr g1" and
    b: "update_projectiles (ti_now inp - last_update g) g1 = Inr g2" and
    c: "update_enemies (ti_now inp - last_update g) (ti_enemy_now inp) (ti_rnd inp) g2 = Inr g'"
    by (auto simp: run_updates_def Let_def split: sum.splits)
  from handle_input_health[OF a] assms(2) have "game_over g1 \<or> 0 < p_health (player g1)"
    by auto
  with update_projectiles_strikers[OF b] have "game_over g2 \<or> 0 < p_health (player g2)"
    by (cases "strikers (ti_now inp - last_update g) g1 = []") auto
  with update_enemies_player[OF c] show ?thesis by simp
qed

lemma run_iteration_alive:
  assumes "run_iteration inp keys fresh g = Some (Inr (won, g2))"
    and "game_over g \<or> 0 < p_health (player g)"
  shows "game_over g2 \<or> 0 < p_health (player g2)"
proof -
  from assms(1) obtain g1 scr where upd: "run_updates inp g = Inr (g1, scr)"
    by (auto simp: run_iteration_def split: sum.splits)
  note alive = run_updates_alive[OF upd assms(2)]
  show ?thesis
  proof (cases "enemies g1 = []")
    case False
    with assms(1) upd alive show ?thesis
      by (simp add: run_iteration_def)
  next
    case True
    with assms(1) upd obtain k where k: "win_prompt keys = Some k"
      by (auto simp: run_iteration_def split: option.splits)
    show ?thesis
    proof (cases "k = Ch CHR ''y''")
      case False
      with assms(1) upd True k show ?thesis
        by (auto simp: run_iteration_def)
    next
      case yes: True
      with assms(1) upd True k have "Game_init fresh = Some (Inr g2)"
        by (auto simp: run_iteration_def split: option.splits sum.splits)
      from Game_init_fresh[OF this] show ?thesis
        by simp
    qed
  qed
qed

lemma loop_head_alive: "loop_head g \<Longrightarrow> game_over g \<or> 0 < p_health (player g)"
proof (induction rule: loop_head.induct)
  case (start inp g)
  from Game_init_fresh[OF this] show ?case by simp
next
  case (pass g inp keys fresh won g')
  from run_iteration_alive[OF pass(3) pass(4)] show ?case .
qed

text \<open>
  C3, as the code has it. A step of the loop of update_projectiles takes exactly 10
  health when the advanced projectile is an enemy's, inside the grid, off the walls and
  on the player's cell, and none otherwise; it sets the game-over flag exactly when such
  a hit leaves health at or below zero, and never clears it. Over a whole update health
  drops by 10 for each projectile of the list that so hits (at most the enemy
  projectiles in flight), nothing stops it at zero, and the flag is set exactly when
  there was a hit and health ends at or below zero. handle_input and update_enemies
  leave health alone (and update_enemies the flag). So every game at the head of the
  loop of \<open>run\<close> has positive health or its game-over flag set.
\<close>

theorem health_and_game_over:
  "(projectile_step dt p g = Inr (r, g1) \<longrightarrow>
      p_health (player g1) =
        p_health (player g) - (if strikes g (projectile_advance dt p) then 10 else 0) \<and>
      (game_over g1 \<longleftrightarrow>
         game_over g \<or> (strikes g (projectile_advance dt p) \<and> p_health (player g1) \<le> 0))) \<and>
   (update_projectiles dt u = Inr u' \<longrightarrow>
      p_health (player u') = p_health (player u) - 10 * int (length (strikers dt u)) \<and>
      (game_over u' \<longleftrightarrow>
         game_over u \<or> (strikers dt u \<noteq> [] \<and> p_health (player u') \<le> 0)) \<and>
      length (strikers dt u) \<le> length (filter pr_is_enemy (projectiles u)) \<and>
      (10 * int (length (filter pr_is_enemy (projectiles u))) \<le> p_health (player u)
         \<longrightarrow> 0 \<le> p_health (player u'))) \<and>
   (handle_input k v = Inr v' \<longrightarrow>
      p_health (player v') = p_health (player v) \<and> (game_over v \<longrightarrow> game_over v')) \<and>
   (update_enemies dt' now rnd w = Inr w' \<longrightarrow>
      p_health (player w') = p_health (player w) \<and> game_over w' = game_over w) \<and>
   (loop_head h \<longrightarrow> game_over h \<or> 0 < p_health (player h))"
proof (intro conjI impI)
  assume "projectile_step dt p g = Inr (r, g1)"
  note one = projectile_step_strikes[OF this]
  from one show "p_health (player g1) =
        p_health (player g) - (if strikes g (projectile_advance dt p) then 10 else 0)"
    by (rule conjunct1)
  from one show "game_over g1 \<longleftrightarrow>
         game_over g \<or> (strikes g (projectile_advance dt p) \<and> p_health (player g1) \<le> 0)"
    by (rule conjunct2)
next
  assume "update_projectiles dt u = Inr u'"
  note all = update_projectiles_strikers[OF this]
  from all show eq: "p_health (player u') = p_health (player u) - 10 * int (length (strikers dt u))"
    by (rule conjunct1)
  from all show "game_over u' \<longleftrightarrow>
         game_over u \<or> (strikers dt u \<noteq> [] \<and> p_health (player u') \<le> 0)"
    by (rule conjunct2)
  show "length (strikers dt u) \<le> length (filter pr_is_enemy (projectiles u))"
    by (rule strikers_enemy)
  assume "10 * int (length (filter pr_is_enemy (projectiles u))) \<le> p_health (player u)"
  with eq strikers_enemy[of dt u] show "0 \<le> p_health (player u')"
    by linarith
next
  assume "handle_input k v = Inr v'"
  note inp = handle_input_health[OF this]
  from inp show "p_health (player v') = p_health (player v)" by (rule conjunct1)
  assume "game_over v"
  with inp show "game_over v'" by simp
next
  assume "update_enemies dt' now rnd w = Inr w'"
  from update_enemies_player[OF this]
  show "p_health (player w') = p_health (player w)" "game_over w' = game_over w"
    by simp_all
next
  assume "loop_head h"
  then show "game_over h \<or> 0 < p_health (player h)"
    by (rule loop_head_alive)
qed

theorem health_and_game_over_witness:
  "projectile_step (1 / 2) (Projectile 5 5 1 0 True) arena =
     Inr (Some (Projectile 6 5 1 0 True), arena) \<and>
   strikes arena (Projectile 6 5 1 0 True) = False \<and>
   projectile_step (1 / 2) (Projectile 19 10 1 0 True) arena_one_hit =
     Inr (None, arena_one_hit\<lparr>player := (Player 20 10)\<lparr>p_health := 90\<rparr>\<rparr>) \<and>
   strikes arena_one_hit (Projectile 20 10 1 0 True) = True \<and>
   update_projectiles (1 / 2) arena_one_hit =
     Inr (arena\<lparr>player := (Player 20 10)\<lparr>p_health := 90\<rparr>\<rparr>) \<and>
   strikers (1 / 2) arena_one_hit = [Projectile 19 10 1 0 True] \<and>
   0 \<le> p_health (player (arena\<lparr>player := (Player 20 10)\<lparr>p_health := 90\<rparr>\<rparr>)) \<and>
   update_projectiles (1 / 2) arena_last_stand =
     Inr (arena\<lparr>player := (Player 20 10)\<lparr>p_health := - 10\<rparr>, game_over := True\<rparr>) \<and>
   strikers (1 / 2) arena_last_stand =
     [Projectile 19 10 1 0 True, Projectile 21 10 (- 1) 0 True] \<and>
   handle_input (Ch CHR ''d'') arena_start = Inr arena_fired \<and>
   p_health (player arena_fired) = 100 \<and>
   update_enemies (1 / 2) 2 (\<lambda>i. (0, 0, 2)) arena_start = Inr arena_volley \<and>
   p_health (player arena_volley) = 100 \<and> game_over arena_volley = False \<and>
   loop_head arena_start \<and> 0 < p_health (player arena_start)"
proof -
  let ?miss = "Projectile 5 5 1 0 True" and ?hit = "Projectile 19 10 1 0 True"
  let ?hurt = "arena\<lparr>player := (Player 20 10)\<lparr>p_health := 90\<rparr>\<rparr>"
  let ?dead = "arena\<lparr>player := (Player 20 10)\<lparr>p_health := - 10\<rparr>, game_over := True\<rparr>"
  have miss: "projectile_step (1 / 2) ?miss arena = Inr (Some (Projectile 6 5 1 0 True), arena)"
    by (simp add: arena_simps step_simps)
  have hit: "projectile_step (1 / 2) ?hit arena_one_hit =
     Inr (None, arena_one_hit\<lparr>player := (Player 20 10)\<lparr>p_health := 90\<rparr>\<rparr>)"
    by (simp add: arena_simps step_simps)
  have run: "update_projectiles (1 / 2) arena_one_hit = Inr ?hurt"
    by (simp add: arena_simps step_simps)
  have last: "update_projectiles (1 / 2) arena_last_stand = Inr ?dead"
    by (simp add: arena_simps step_simps)
  have cover: "10 * int (length (filter pr_is_enemy (projectiles arena_one_hit)))
                 \<le> p_health (player arena_one_hit)"
    by (simp add: arena_simps)
  have fired: "handle_input (Ch CHR ''d'') arena_start = Inr arena_fired"
    by (simp add: handle_input_def shoot_def arena_fired_def arena_start_def arena_simps Let_def)
  have ten: "replicate 10 e = [e, e, e, e, e, e, e, e, e, e]" for e :: 'a
    by (simp add: eval_nat_numeral)
  have volley: "update_enemies (1 / 2) 2 (\<lambda>i. (0, 0, 2)) arena_start = Inr arena_volley"
    by (simp add: update_enemies_def enemy_step_def arena_start_def arena_volley_def arena_simps
        step_simps shoot_def ten)
  have head: "loop_head arena_start"
    using Game_init_arena by (rule loop_head.start)
  note first = health_and_game_over[where dt = "1 / 2" and p = ?miss and g = arena
      and r = "Some (Projectile 6 5 1 0 True)" and ?g1.0 = arena
      and u = arena_one_hit and u' = ?hurt
      and k = "Ch CHR ''d''" and v = arena_start and v' = arena_fired
      and dt' = "1 / 2" and now = 2 and rnd = "\<lambda>i. (0, 0, 2)"
      and w = arena_start and w' = arena_volley and h = arena_start]
  note second = health_and_game_over[where dt = "1 / 2" and p = ?hit and g = arena_one_hit
      and r = None and ?g1.0 = "arena_one_hit\<lparr>player := (Player 20 10)\<lparr>p_health := 90\<rparr>\<rparr>"
      and u = arena_last_stand and u' = ?dead
      and k = "Ch CHR ''d''" and v = arena_start and v' = arena_fired
      and dt' = "1 / 2" and now = 2 and rnd = "\<lambda>i. (0, 0, 2)"
      and w = arena_start and w' = arena_volley and h = arena_start]
  have adv: "projectile_advance (1 / 2) ?miss = Projectile 6 5 1 0 True"
    "projectile_advance (1 / 2) ?hit = Projectile 20 10 1 0 True"
    by (simp_all add: projectile_advance_def Projectile_def)
  from first[THEN conjunct1, THEN mp, OF miss]
  have a: "strikes arena (Projectile 6 5 1 0 True) = False"
    unfolding adv by (simp split: if_splits)
  from first[THEN conjunct2, THEN conjunct1, THEN mp, OF run]
  have b: "length (strikers (1 / 2) arena_one_hit) = 1"
    by (simp add: arena_one_hit_def arena_def Player_def)
  from first[THEN conjunct2, THEN conjunct2, THEN conjunct1, THEN mp, OF fired]
  have c: "p_health (player arena_fired) = 100"
    by (simp add: arena_start_def Player_def)
  from first[THEN conjunct2, THEN conjunct2, THEN conjunct2, THEN conjunct2, THEN mp, OF head]
  have d: "0 < p_health (player arena_start)"
    by (simp add: arena_start_def Player_def)
  from first[THEN conjunct2, THEN conjunct1, THEN mp, OF run] cover
  have b': "0 \<le> p_health (player ?hurt)"
    by blast
  from first[THEN conjunct2, THEN conjunct2, THEN conjunct2, THEN conjunct1, THEN mp, OF volley]
  have c': "p_health (player arena_volley) = 100" "game_over arena_volley = False"
    by (simp_all add: arena_start_def Player_def)
  from second[THEN conjunct1, THEN mp, OF hit]
  have e: "strikes arena_one_hit (Projectile 20 10 1 0 True) = True"
    unfolding adv by (simp add: arena_one_hit_def arena_def Player_def split: if_splits)
  from second[THEN conjunct2, THEN conjunct1, THEN mp, OF last]
  have f: "length (strikers (1 / 2) arena_last_stand) = 2"
    by (simp add: arena_last_stand_def arena_def Player_def)
  have sub1: "strikers (1 / 2) arena_one_hit = [?hit]"
    using b by (auto simp: strikers_def arena_one_hit_def arena_def split: if_splits)
  have sub2: "strikers (1 / 2) arena_last_stand =
     [Projectile 19 10 1 0 True, Projectile 21 10 (- 1) 0 True]"
    using f by (auto simp: strikers_def arena_last_stand_def arena_def split: if_splits)
  from miss a hit e run sub1 b' last sub2 fired c volley c' head d show ?thesis
    by simp
qed

text \<open>
  The claim as stated fails: with 10 health left and two enemy projectiles reaching the
  player's cell in the same tick, the first hit brings health to 0 and sets the flag, the
  loop goes on, and the second hit leaves health at -10.
\<close>

theorem update_projectiles_health_goes_negative:
  "p_health (player arena_last_stand) = 10 \<and>
   update_projectiles (1 / 2) arena_last_stand =
     Inr (arena\<lparr>player := (Player 20 10)\<lparr>p_health := - 10\<rparr>, game_over := True\<rparr>)"
  by (simp add: arena_last_stand_def arena_simps step_simps)

end
